theory Spec2Isabelle
  imports Complex_Main "HOL-Library.Multiset" "HOL-Library.AList"
begin

section \<open>Python numbers\<close>

text \<open>
  The scores of \<^verbatim>\<open>satprepapp.py\<close> are Python floats (IEEE 754 binary64). A number is
  modelled by its real value, and every float operation rounds its exact result to the
  nearest double, ties to even, with \<open>fl\<close>. Only the normal range is modelled: the
  program's values are percentages and small counters, so overflow, subnormals, infinities
  and NaN do not occur (both divisions of \<^verbatim>\<open>update_analytics\<close> are guarded).
  A Python \<^verbatim>\<open>int\<close> and the float of the same value are identified (\<^verbatim>\<open>0 == 0.0\<close>).
\<close>

definition round_even :: "real \<Rightarrow> int" where
  "round_even x = (let f = \<lfloor>x\<rfloor>; d = x - of_int f
                   in if d < 1/2 then f else if 1/2 < d then f + 1
                      else if even f then f else f + 1)"

definition pow2 :: "int \<Rightarrow> real" where
  "pow2 e = (if 0 \<le> e then 2 ^ nat e else 1 / 2 ^ nat (- e))"

text \<open>\<open>ilog2 x\<close> is the binary exponent of a positive \<open>x\<close>: \<open>2 ^ ilog2 x \<le> x < 2 ^ (ilog2 x + 1)\<close>.\<close>

function ilog2 :: "real \<Rightarrow> int" where
  "ilog2 x = (if x \<le> 0 then 0
              else if 2 \<le> x then ilog2 (x / 2) + 1
              else if x < 1 then ilog2 (x * 2) - 1
              else 0)"
  by pat_completeness auto
termination
proof (relation "measure (\<lambda>x. nat \<lceil>x\<rceil> + 2 * nat \<lceil>1 / x\<rceil>)")
  show "wf (measure (\<lambda>x. nat \<lceil>x\<rceil> + 2 * nat \<lceil>1 / x\<rceil>))" by simp
next
  fix x :: real assume a: "\<not> x \<le> 0" "2 \<le> x"
  have "\<lceil>x / 2\<rceil> < \<lceil>x\<rceil>" using a by (simp add: ceiling_less_iff) linarith
  moreover have "\<lceil>1 / (x / 2)\<rceil> = 1" using a by (simp add: ceiling_eq_iff)
  moreover have "\<lceil>1 / x\<rceil> = 1" using a by (simp add: ceiling_eq_iff)
  moreover have "0 < \<lceil>x\<rceil>" using a by (simp add: less_ceiling_iff)
  ultimately show "(x / 2, x) \<in> measure (\<lambda>x. nat \<lceil>x\<rceil> + 2 * nat \<lceil>1 / x\<rceil>)"
    by simp
next
  fix x :: real assume a: "\<not> x \<le> 0" "\<not> 2 \<le> x" "x < 1"
  show "(x * 2, x) \<in> measure (\<lambda>x. nat \<lceil>x\<rceil> + 2 * nat \<lceil>1 / x\<rceil>)"
  proof -
    define y where "y = 1 / x"
    have y1: "1 < y" using a by (simp add: y_def)
    have c2: "2 \<le> \<lceil>y\<rceil>" using y1 by (simp add: le_ceiling_iff)
    have "y / 2 \<le> of_int (\<lceil>y\<rceil> - 1)"
    proof (cases "2 \<le> y")
      case True
      have "y \<le> of_int \<lceil>y\<rceil>" by (rule le_of_int_ceiling)
      then have "y \<le> of_int \<lceil>y\<rceil> * 2 - 2" using True by linarith
      then show ?thesis by simp
    next
      case False
      have "(1::real) \<le> of_int (\<lceil>y\<rceil> - 1)" using c2 by linarith
      then show ?thesis using False by linarith
    qed
    then have h1: "\<lceil>y / 2\<rceil> \<le> \<lceil>y\<rceil> - 1" by (simp only: ceiling_le_iff)
    have e: "1 / (x * 2) = y / 2" by (simp add: y_def)
    have h2: "\<lceil>x * 2\<rceil> \<le> 2" using a by (simp add: ceiling_le_iff)
    have h3: "\<lceil>x\<rceil> = 1" using a by (simp add: ceiling_eq_iff)
    have h4: "0 < \<lceil>y / 2\<rceil>" using y1 by (simp add: less_ceiling_iff)
    show ?thesis unfolding in_measure e y_def[symmetric] using h1 h2 h3 h4 c2 by linarith
  qed
qed

text \<open>Rounding to 53 significant bits.\<close>

definition fl :: "real \<Rightarrow> real" where
  "fl x = (if x = 0 then 0
           else let e = ilog2 \<bar>x\<bar> - 52
                in of_int (round_even (x / pow2 e)) * pow2 e)"

text \<open>\<^verbatim>\<open>a / b\<close>, \<^verbatim>\<open>a * b\<close>, \<^verbatim>\<open>a + b\<close> on numbers, and \<^verbatim>\<open>round(x, 1)\<close>, which
  rounds the exact value of \<open>x\<close> to one decimal (half to even) and returns the nearest
  double.\<close>

definition py_truediv :: "real \<Rightarrow> real \<Rightarrow> real" where
  "py_truediv a b = fl (a / b)"

definition py_mul :: "real \<Rightarrow> real \<Rightarrow> real" where
  "py_mul a b = fl (a * b)"

definition py_add :: "real \<Rightarrow> real \<Rightarrow> real" where
  "py_add a b = fl (a + b)"

definition py_round1 :: "real \<Rightarrow> real" where
  "py_round1 x = fl (of_int (round_even (x * 10)) / 10)"

section \<open>Data model\<close>

datatype sect = RW | MATH

text \<open>The values written to \<^verbatim>\<open>test_state["test_phase"]\<close>: a section name,
  \<^verbatim>\<open>"BREAK"\<close> or \<^verbatim>\<open>"MENU"\<close> (\<^verbatim>\<open>None\<close> is \<open>None\<close> of the option type).\<close>

datatype phase = Running sect | BREAK | MENU

text \<open>An entry of a question bank file. A field is \<open>None\<close> when the JSON object has no
  such key.\<close>

record question =
  q_id :: "string option"
  q_question :: "string option"
  q_options :: "string list option"
  q_answer :: "string option"
  q_category :: "string option"

text \<open>What \<^verbatim>\<open>open(path)\<close> and \<^verbatim>\<open>json.load\<close> give for a question bank file; the
  argument of \<open>BankData\<close> is the value under the key \<^verbatim>\<open>"questions"\<close>, if any.\<close>

datatype bank_file = FileNotFound | InvalidJSON | BankData "question list option"

record config =
  question_banks :: "sect \<Rightarrow> bank_file"
  total_questions :: "sect \<Rightarrow> int"
  default_time_limits :: "sect \<Rightarrow> int"
  break_duration_minutes :: "int option"

text \<open>Keys of a Python dict: the engine writes \<^verbatim>\<open>int\<close> keys into \<^verbatim>\<open>user_answers\<close>,
  \<^verbatim>\<open>json.load\<close> produces \<^verbatim>\<open>str\<close> keys. An \<^verbatim>\<open>int\<close> never equals a \<^verbatim>\<open>str\<close>.\<close>

datatype pykey = IntKey int | StrKey string

text \<open>The dict \<^verbatim>\<open>self.test_state\<close>, with the key type of the answer dicts as a
  parameter: \<open>pykey\<close> in memory, \<open>string\<close> in a JSON file. A dict is an association list
  in insertion order.\<close>

record 'k tstate =
  current_section :: "sect option"
  current_module :: "string option"
  rw_index :: int
  math_index :: int
  user_answers :: "sect \<Rightarrow> ('k \<times> string) list"
  start_time :: "real option"
  elapsed :: int
  test_phase :: "phase option"

record history_entry =
  h_date :: string
  h_scores :: "sect \<Rightarrow> real"

record analytics_t =
  tests_taken :: int
  average_scores :: "sect \<Rightarrow> real"
  best_scores :: "sect \<Rightarrow> real"
  weakest_categories :: "sect \<Rightarrow> (string \<rightharpoonup> int)"
  progress_over_time :: "history_entry list"

text \<open>The JSON object of \<^verbatim>\<open>progress.json\<close>; a field is \<open>None\<close> when its key is absent.\<close>

record snapshot =
  snap_test_state :: "string tstate option"
  snap_questions :: "question list option"
  snap_remaining_seconds :: "int option"

datatype progress_file = NoFile | CorruptFile | SavedFile snapshot

datatype widget = menu_widget | test_widget | break_widget | review_widget | analytics_widget

text \<open>The attributes of \<^verbatim>\<open>SATPracticeApp\<close> that carry state, the running flag of its
  \<^verbatim>\<open>QTimer\<close>, the current widget of \<^verbatim>\<open>self.stacked\<close>, and the file at
  \<^verbatim>\<open>PROGRESS_PATH\<close>. The texts of labels and buttons are not modelled.\<close>

record app =
  test_state :: "pykey tstate"
  questions :: "question list"
  remaining_seconds :: int
  timer_active :: bool
  stacked :: widget
  analytics :: analytics_t
  progress_file :: progress_file

datatype py_error = KeyError | ValueError | IndexError

section \<open>Question bank loader\<close>

text \<open>\<^verbatim>\<open>random.sample(population, k)\<close>: \<open>k\<close> elements at distinct positions. The random
  numbers are a parameter; the \<open>i\<close>-th draw picks a position among the \<open>n - i\<close> elements
  not yet chosen, and the last of them moves into the gap.\<close>

fun sample_pool :: "'a list \<Rightarrow> nat \<Rightarrow> nat list \<Rightarrow> 'a list" where
  "sample_pool pool 0 rs = []"
| "sample_pool pool (Suc k) rs =
     (let j = (case rs of [] \<Rightarrow> 0 | r # _ \<Rightarrow> r mod length pool)
      in pool ! j # sample_pool (butlast (pool[j := last pool])) k (tl rs))"

definition py_sample :: "'a list \<Rightarrow> int \<Rightarrow> nat list \<Rightarrow> py_error + 'a list" where
  "py_sample population k rs =
     (if 0 \<le> k \<and> k \<le> int (length population)
      then Inr (sample_pool population (nat k) rs)
      else Inl ValueError)"

definition is_valid :: "question \<Rightarrow> bool" where
  "is_valid q \<longleftrightarrow>
     q_id q \<noteq> None \<and> q_question q \<noteq> None \<and> q_options q \<noteq> None \<and> q_answer q \<noteq> None"

definition load_questions :: "config \<Rightarrow> sect \<Rightarrow> bool \<Rightarrow> nat list \<Rightarrow> question list" where
  "load_questions cfg sec for_analytics rs =
     (case question_banks cfg sec of
        FileNotFound \<Rightarrow> []
      | InvalidJSON \<Rightarrow> []
      | BankData data \<Rightarrow>
          (let qs = (case data of None \<Rightarrow> [] | Some l \<Rightarrow> l);
               valid_questions = filter is_valid qs
           in if valid_questions = [] then []
              else if for_analytics then valid_questions
              else (case py_sample valid_questions
                           (min (int (length valid_questions)) (total_questions cfg sec)) rs of
                      Inl e \<Rightarrow> []
                    | Inr r \<Rightarrow> r)))"

section \<open>Session state store\<close>

text \<open>\<^verbatim>\<open>str(i)\<close> for an integer \<open>i\<close>.\<close>

fun digits :: "nat \<Rightarrow> string" where
  "digits n = (if n < 10 then [char_of (48 + n)]
               else digits (n div 10) @ [char_of (48 + n mod 10)])"

declare digits.simps [simp del]

definition str_int :: "int \<Rightarrow> string" where
  "str_int i = (if i < 0 then CHR ''-'' # digits (nat (- i)) else digits (nat i))"

text \<open>\<^verbatim>\<open>json.dump\<close> writes every dict key as a string; \<^verbatim>\<open>json.load\<close> builds a dict
  with \<^verbatim>\<open>str\<close> keys, a later duplicate overwriting the value of an earlier one.\<close>

definition json_key :: "pykey \<Rightarrow> string" where
  "json_key k = (case k of IntKey i \<Rightarrow> str_int i | StrKey t \<Rightarrow> t)"

definition dump_dict :: "(pykey \<times> string) list \<Rightarrow> (string \<times> string) list" where
  "dump_dict d = map (\<lambda>(k, v). (json_key k, v)) d"

definition load_dict :: "(string \<times> string) list \<Rightarrow> (pykey \<times> string) list" where
  "load_dict kvs = foldl (\<lambda>d (k, v). AList.update (StrKey k) v d) [] kvs"

definition dump_state :: "pykey tstate \<Rightarrow> string tstate" where
  "dump_state ts =
     \<lparr>current_section = current_section ts, current_module = current_module ts,
      rw_index = rw_index ts, math_index = math_index ts,
      user_answers = (\<lambda>sec. dump_dict (user_answers ts sec)),
      start_time = start_time ts, elapsed = elapsed ts, test_phase = test_phase ts\<rparr>"

definition load_state :: "string tstate \<Rightarrow> pykey tstate" where
  "load_state ts =
     \<lparr>current_section = current_section ts, current_module = current_module ts,
      rw_index = rw_index ts, math_index = math_index ts,
      user_answers = (\<lambda>sec. load_dict (user_answers ts sec)),
      start_time = start_time ts, elapsed = elapsed ts, test_phase = test_phase ts\<rparr>"

text \<open>A failed write or removal is logged and ignored by the source; the model takes the
  file operations to succeed.\<close>

definition save_progress :: "bool \<Rightarrow> app \<Rightarrow> app" where
  "save_progress delete s =
     (if delete then s\<lparr>progress_file := NoFile\<rparr>
      else s\<lparr>progress_file := SavedFile
               \<lparr>snap_test_state = Some (dump_state (test_state s)),
                snap_questions = Some (questions s),
                snap_remaining_seconds = Some (remaining_seconds s)\<rparr>\<rparr>)"

text \<open>The dict literal that \<^verbatim>\<open>__init__\<close>, \<^verbatim>\<open>back_to_menu\<close> and the error branches of
  \<^verbatim>\<open>load_progress\<close> assign to \<^verbatim>\<open>self.test_state\<close>, for a given \<^verbatim>\<open>test_phase\<close>.\<close>

definition fresh_test_state :: "phase option \<Rightarrow> pykey tstate" where
  "fresh_test_state p =
     \<lparr>current_section = None, current_module = None, rw_index = 0, math_index = 0,
      user_answers = (\<lambda>sec. []), start_time = None, elapsed = 0, test_phase = p\<rparr>"

text \<open>\<open>reply\<close> is the user's answer to "Previous test progress found. Resume?".\<close>

definition load_progress :: "bool \<Rightarrow> app \<Rightarrow> app" where
  "load_progress reply s =
     (case progress_file s of
        NoFile \<Rightarrow> s
      | CorruptFile \<Rightarrow>
          (if reply then (save_progress True s)\<lparr>test_state := fresh_test_state None\<rparr>
           else save_progress True s)
      | SavedFile data \<Rightarrow>
          (if reply
           then s\<lparr>test_state := (case snap_test_state data of
                                    None \<Rightarrow> test_state s | Some ts \<Rightarrow> load_state ts),
                  questions := (case snap_questions data of None \<Rightarrow> [] | Some qs \<Rightarrow> qs),
                  remaining_seconds :=
                    (case snap_remaining_seconds data of None \<Rightarrow> 0 | Some r \<Rightarrow> r)\<rparr>
           else save_progress True s))"

section \<open>Test session engine\<close>

definition back_to_menu :: "app \<Rightarrow> app" where
  "back_to_menu s =
     (save_progress True
        (s\<lparr>timer_active := False, test_state := fresh_test_state (Some MENU),
           questions := []\<rparr>))
     \<lparr>stacked := menu_widget\<rparr>"

definition current_index :: "app \<Rightarrow> int" where
  "current_index s =
     (if current_section (test_state s) = Some RW then rw_index (test_state s)
      else math_index (test_state s))"

definition set_current_index :: "int \<Rightarrow> app \<Rightarrow> app" where
  "set_current_index val s =
     save_progress False
       (if current_section (test_state s) = Some RW
        then s\<lparr>test_state := (test_state s)\<lparr>rw_index := val\<rparr>\<rparr>
        else s\<lparr>test_state := (test_state s)\<lparr>math_index := val\<rparr>\<rparr>)"

text \<open>\<^verbatim>\<open>show_question\<close> changes the state only when there is no question to display.
  Otherwise it reads \<^verbatim>\<open>self.questions[idx]\<close> (a negative index counts from the end, an
  index below \<open>- len\<close> raises), the keys \<^verbatim>\<open>'question'\<close> and \<^verbatim>\<open>'options'\<close> of the
  question, and the answer dict of the current section; an exception is not caught and
  ends the process. The texts it writes to the widgets are not modelled.\<close>

definition show_question :: "app \<Rightarrow> py_error + app" where
  "show_question s =
     (let idx = current_index s; n = int (length (questions s))
      in if questions s = [] \<or> n \<le> idx then Inr (back_to_menu s)
         else if idx < - n then Inl IndexError
         else (let q = questions s ! nat (if idx < 0 then idx + n else idx)
               in if q_question q = None then Inl KeyError
                  else if q_options q = None then Inl KeyError
                  else (case current_section (test_state s) of
                          None \<Rightarrow> Inl KeyError
                        | Some sec \<Rightarrow> Inr s)))"

text \<open>The ids that \<^verbatim>\<open>test_screen\<close> gives the radio buttons of \<^verbatim>\<open>choices_group\<close>.\<close>

definition choices_buttons :: "nat list" where
  "choices_buttons = [0..<4]"

text \<open>\<open>checked\<close> is the id of \<^verbatim>\<open>choices_group.checkedButton()\<close>, if a button is checked.
  With no current section the subscript \<^verbatim>\<open>user_answers[section]\<close> raises.\<close>

definition save_answer :: "nat option \<Rightarrow> app \<Rightarrow> py_error + app" where
  "save_answer checked s =
     (case checked of
        None \<Rightarrow> Inr s
      | Some b \<Rightarrow>
          (let idx = current_index s
           in case current_section (test_state s) of
                None \<Rightarrow> Inl KeyError
              | Some sec \<Rightarrow>
                  (let answer = [char_of (of_char (CHR ''A'') + b)];
                       ts = test_state s
                   in Inr (save_progress False
                        (s\<lparr>test_state := ts\<lparr>user_answers :=
                             (user_answers ts)
                               (sec := AList.update (IntKey idx) answer
                                         (user_answers ts sec))\<rparr>\<rparr>)))))"

definition prev_question :: "app \<Rightarrow> py_error + app" where
  "prev_question s =
     (let idx = current_index s
      in if 0 < idx then show_question (set_current_index (idx - 1) s) else Inr s)"

definition next_question :: "app \<Rightarrow> py_error + app" where
  "next_question s =
     (let idx = current_index s
      in if idx < int (length (questions s)) - 1
         then show_question (set_current_index (idx + 1) s) else Inr s)"

definition start_break :: "config \<Rightarrow> app \<Rightarrow> app" where
  "start_break cfg s =
     save_progress False
       (s\<lparr>test_state := (test_state s)\<lparr>test_phase := Some BREAK\<rparr>,
          remaining_seconds :=
            (case break_duration_minutes cfg of None \<Rightarrow> 10 | Some m \<Rightarrow> m) * 60,
          timer_active := True,
          stacked := break_widget\<rparr>)"

text \<open>The end of \<^verbatim>\<open>start_test_section\<close>, common to its branches: start the timer, show
  the current question, raise the test widget, save.\<close>

definition enter_test_widget :: "app \<Rightarrow> py_error + app" where
  "enter_test_widget s =
     (case show_question (s\<lparr>timer_active := True\<rparr>) of
        Inl e \<Rightarrow> Inl e
      | Inr t \<Rightarrow> Inr (save_progress False (t\<lparr>stacked := test_widget\<rparr>)))"

text \<open>\<open>rs\<close> are the random numbers of the sampling, \<open>now\<close> is \<^verbatim>\<open>time.time()\<close>.\<close>

definition start_test_section :: "config \<Rightarrow> nat list \<Rightarrow> real \<Rightarrow> sect \<Rightarrow> bool \<Rightarrow> app \<Rightarrow> py_error + app" where
  "start_test_section cfg rs now sec resume s =
     (let s1 = s\<lparr>test_state :=
                  (test_state s)\<lparr>current_section := Some sec, test_phase := Some (Running sec)\<rparr>\<rparr>
      in if \<not> resume then
           (let s2 = s1\<lparr>test_state := (test_state s1)\<lparr>start_time := Some now, elapsed := 0\<rparr>,
                        questions := load_questions cfg sec False rs\<rparr>
            in if questions s2 = []
               then Inr (s2\<lparr>stacked := menu_widget,
                            test_state := (test_state s2)\<lparr>test_phase := Some MENU\<rparr>\<rparr>)
               else enter_test_widget
                      (s2\<lparr>remaining_seconds := default_time_limits cfg sec * 60,
                          test_state := (if sec = RW
                                         then (test_state s2)\<lparr>rw_index := 0\<rparr>
                                         else (test_state s2)\<lparr>math_index := 0\<rparr>)\<rparr>))
         else if questions s1 = [] then
           (let s2 = s1\<lparr>questions := load_questions cfg sec False rs\<rparr>
            in if questions s2 = []
               then Inr (s2\<lparr>stacked := menu_widget,
                            test_state := (test_state s2)\<lparr>test_phase := Some MENU\<rparr>\<rparr>)
               else enter_test_widget
                      (s2\<lparr>remaining_seconds := default_time_limits cfg sec * 60\<rparr>))
         else enter_test_widget s1)"

definition start_full_test :: "config \<Rightarrow> nat list \<Rightarrow> real \<Rightarrow> app \<Rightarrow> py_error + app" where
  "start_full_test cfg rs now s =
     start_test_section cfg rs now RW False
       (save_progress True
          (s\<lparr>test_state :=
               \<lparr>current_section = Some RW, current_module = Some ''RW1'',
                rw_index = 0, math_index = 0, user_answers = (\<lambda>sec. []),
                start_time = None, elapsed = 0, test_phase = Some (Running RW)\<rparr>,
             questions := []\<rparr>))"

definition start_next_section :: "config \<Rightarrow> nat list \<Rightarrow> real \<Rightarrow> app \<Rightarrow> py_error + app" where
  "start_next_section cfg rs now s =
     start_test_section cfg rs now MATH False
       (s\<lparr>timer_active := False,
          test_state := (test_state s)\<lparr>test_phase := Some (Running MATH)\<rparr>\<rparr>)"

section \<open>Scoring and analytics\<close>

record score_data =
  correct :: int
  total :: int

definition percentage :: "score_data \<Rightarrow> real" where
  "percentage sd =
     (if 0 < total sd then py_mul (py_truediv (of_int (correct sd)) (of_int (total sd))) 100
      else 0)"

definition new_average :: "real \<Rightarrow> int \<Rightarrow> real \<Rightarrow> real" where
  "new_average current_avg num_tests pct =
     (if 0 < num_tests
      then py_truediv (py_add (py_mul current_avg (of_int (num_tests - 1))) pct) (of_int num_tests)
      else pct)"

text \<open>The body of the loop over \<^verbatim>\<open>enumerate(questions_list)\<close> in \<^verbatim>\<open>update_analytics\<close>,
  on the dict \<^verbatim>\<open>weakest_categories[section_key]\<close>.\<close>

definition weak_step :: "(pykey \<times> string) list \<Rightarrow> nat \<times> question \<Rightarrow> (string \<rightharpoonup> int) \<Rightarrow> (string \<rightharpoonup> int)" where
  "weak_step answers iq w =
     (let user_answer = map_of answers (IntKey (int (fst iq)));
          correct_answer = q_answer (snd iq);
          category = (case q_category (snd iq) of None \<Rightarrow> ''Uncategorized'' | Some c \<Rightarrow> c)
      in if user_answer \<noteq> None \<and> user_answer \<noteq> correct_answer
         then w(category \<mapsto> (case w category of None \<Rightarrow> 0 | Some n \<Rightarrow> n) + 1)
         else w)"

text \<open>\<open>today\<close> is \<^verbatim>\<open>datetime.now().strftime("%Y-%m-%d")\<close>. The analytics file is not
  modelled.\<close>

definition update_analytics :: "config \<Rightarrow> string \<Rightarrow> score_data \<Rightarrow> score_data \<Rightarrow> app \<Rightarrow> app" where
  "update_analytics cfg today rw_score_data math_score_data s =
     (let a = analytics s;
          num_tests = tests_taken a + 1;
          pct = (\<lambda>sec. percentage (case sec of RW \<Rightarrow> rw_score_data | MATH \<Rightarrow> math_score_data))
      in s\<lparr>analytics :=
             \<lparr>tests_taken = num_tests,
              average_scores = (\<lambda>sec. new_average (average_scores a sec) num_tests (pct sec)),
              best_scores = (\<lambda>sec. max (best_scores a sec) (pct sec)),
              weakest_categories =
                (\<lambda>sec. fold (weak_step (user_answers (test_state s) sec))
                          (enumerate 0 (load_questions cfg sec True []))
                          (weakest_categories a sec)),
              progress_over_time =
                progress_over_time a @ [\<lparr>h_date = today, h_scores = (\<lambda>sec. py_round1 (pct sec))\<rparr>]\<rparr>\<rparr>)"

definition count_correct :: "(pykey \<times> string) list \<Rightarrow> question list \<Rightarrow> int" where
  "count_correct answers all_questions =
     int (length (filter (\<lambda>(i, q). map_of answers (IntKey (int i)) = q_answer q)
                         (enumerate 0 all_questions)))"

definition show_results :: "config \<Rightarrow> string \<Rightarrow> app \<Rightarrow> app" where
  "show_results cfg today s =
     (let s1 = s\<lparr>timer_active := False\<rparr>;
          rw_all_questions = load_questions cfg RW True [];
          math_all_questions = load_questions cfg MATH True [];
          rw_score_data =
            \<lparr>correct = count_correct (user_answers (test_state s1) RW) rw_all_questions,
             total = int (length rw_all_questions)\<rparr>;
          math_score_data =
            \<lparr>correct = count_correct (user_answers (test_state s1) MATH) math_all_questions,
             total = int (length math_all_questions)\<rparr>;
          s2 = update_analytics cfg today rw_score_data math_score_data s1
      in (save_progress True s2)\<lparr>stacked := review_widget\<rparr>)"

section \<open>Submission and the timer\<close>

text \<open>\<open>reply\<close> is the user's answer to "Are you sure you want to submit this section?".\<close>

definition submit_section :: "config \<Rightarrow> string \<Rightarrow> bool \<Rightarrow> app \<Rightarrow> app" where
  "submit_section cfg today reply s =
     (let s1 = s\<lparr>timer_active := False\<rparr>
      in if reply
         then (if current_section (test_state s1) = Some RW then start_break cfg s1
               else show_results cfg today s1)
         else s1\<lparr>timer_active := True\<rparr>)"

text \<open>The slot of the timer's \<^verbatim>\<open>timeout\<close> signal, called once per second while the timer
  runs.\<close>

definition update_timer :: "config \<Rightarrow> string \<Rightarrow> bool \<Rightarrow> app \<Rightarrow> app" where
  "update_timer cfg today reply s =
     (if remaining_seconds s \<le> 0
      then submit_section cfg today reply (s\<lparr>timer_active := False\<rparr>)
      else (let s1 = s\<lparr>remaining_seconds := remaining_seconds s - 1\<rparr>
            in if test_phase (test_state s1) \<in> {Some (Running RW), Some (Running MATH)}
               then save_progress False s1 else s1))"

section \<open>Start of the process\<close>

text \<open>The attributes that \<^verbatim>\<open>__init__\<close> sets before it calls \<^verbatim>\<open>load_progress\<close>. \<open>an\<close> is
  the result of \<^verbatim>\<open>load_analytics\<close>, \<open>pf\<close> the progress file on disk.\<close>

definition initial_app :: "analytics_t \<Rightarrow> progress_file \<Rightarrow> app" where
  "initial_app an pf =
     \<lparr>test_state = fresh_test_state None, questions = [], remaining_seconds = 0,
      timer_active = False, stacked = menu_widget, analytics = an, progress_file = pf\<rparr>"

text \<open>The state part of \<^verbatim>\<open>__init__\<close>: the initial attributes, \<^verbatim>\<open>load_progress\<close>, and the
  choice of the first screen. \<open>resume_reply\<close> is the answer to the resume prompt.\<close>

definition init :: "config \<Rightarrow> nat list \<Rightarrow> real \<Rightarrow> bool \<Rightarrow> analytics_t \<Rightarrow> progress_file \<Rightarrow> py_error + app" where
  "init cfg rs now resume_reply an pf =
     (let s1 = load_progress resume_reply (initial_app an pf)
      in if test_phase (test_state s1) = Some BREAK then Inr (start_break cfg s1)
         else (case current_section (test_state s1) of
                 Some sec \<Rightarrow> start_test_section cfg rs now sec True s1
               | None \<Rightarrow> Inr (s1\<lparr>stacked := menu_widget,
                                 test_state := (test_state s1)\<lparr>test_phase := Some MENU\<rparr>\<rparr>)))"

section \<open>Example data\<close>

text \<open>The analytics that \<^verbatim>\<open>load_analytics\<close> creates when there is no analytics file.\<close>

definition default_analytics :: analytics_t where
  "default_analytics =
     \<lparr>tests_taken = 0, average_scores = (\<lambda>sec. 0), best_scores = (\<lambda>sec. 0),
      weakest_categories = (\<lambda>sec. Map.empty), progress_over_time = []\<rparr>"

definition ex_question :: "string \<Rightarrow> string \<Rightarrow> string \<Rightarrow> question" where
  "ex_question i a c =
     \<lparr>q_id = Some i, q_question = Some ''What is the main idea of a text?'',
      q_options = Some [''A. The topic'', ''B. The purpose'', ''C. The central point'', ''D. The end''],
      q_answer = Some a, q_category = Some c\<rparr>"

text \<open>An entry without the key \<^verbatim>\<open>"answer"\<close>.\<close>

definition ex_malformed :: "string \<Rightarrow> question" where
  "ex_malformed i =
     \<lparr>q_id = Some i, q_question = Some ''Which word means generous?'',
      q_options = Some [''A. Stingy'', ''B. Altruistic''], q_answer = None,
      q_category = Some ''Vocabulary''\<rparr>"

definition ex_valid :: "question list" where
  "ex_valid = [ex_question ''RW1'' ''C'' ''Main Idea'', ex_question ''RW2'' ''B'' ''Vocabulary'',
               ex_question ''RW3'' ''C'' ''Sentence Structure'',
               ex_question ''RW4'' ''B'' ''Literary Devices'',
               ex_question ''RW5'' ''C'' ''Essay Structure'']"

text \<open>A bank with five valid and three malformed entries.\<close>

definition ex_bank :: "question list" where
  "ex_bank = [ex_question ''RW1'' ''C'' ''Main Idea'', ex_malformed ''X1'',
              ex_question ''RW2'' ''B'' ''Vocabulary'',
              ex_question ''RW3'' ''C'' ''Sentence Structure'', ex_malformed ''X2'',
              ex_question ''RW4'' ''B'' ''Literary Devices'', ex_malformed ''X3'',
              ex_question ''RW5'' ''C'' ''Essay Structure'']"

text \<open>The default configuration of \<^verbatim>\<open>load_config\<close>, both bank files holding \<open>ex_bank\<close>.\<close>

definition ex_config :: config where
  "ex_config =
     \<lparr>question_banks = (\<lambda>sec. BankData (Some ex_bank)),
      total_questions = (\<lambda>sec. case sec of RW \<Rightarrow> 27 | MATH \<Rightarrow> 22),
      default_time_limits = (\<lambda>sec. case sec of RW \<Rightarrow> 32 | MATH \<Rightarrow> 35),
      break_duration_minutes = Some 10\<rparr>"

text \<open>A session running section \<open>sec\<close> at question \<open>idx\<close> with \<open>rem\<close> seconds left, the
  answers \<open>ans\<close> recorded for that section, on the five valid questions.\<close>

definition ex_session :: "sect \<Rightarrow> int \<Rightarrow> int \<Rightarrow> (pykey \<times> string) list \<Rightarrow> app" where
  "ex_session sec idx rem ans =
     \<lparr>test_state =
        \<lparr>current_section = Some sec, current_module = Some ''RW1'',
         rw_index = (if sec = RW then idx else 0), math_index = (if sec = RW then 0 else idx),
         user_answers = (\<lambda>sec'. if sec' = sec then ans else []),
         start_time = Some 0, elapsed = 0, test_phase = Some (Running sec)\<rparr>,
      questions = ex_valid, remaining_seconds = rem, timer_active = True,
      stacked = test_widget, analytics = default_analytics, progress_file = NoFile\<rparr>"

text \<open>The break after the RW section, with \<open>rem\<close> seconds left.\<close>

definition ex_break :: "int \<Rightarrow> app" where
  "ex_break rem =
     \<lparr>test_state =
        \<lparr>current_section = Some RW, current_module = Some ''RW1'',
         rw_index = 4, math_index = 0, user_answers = (\<lambda>sec. []),
         start_time = Some 0, elapsed = 0, test_phase = Some BREAK\<rparr>,
      questions = ex_valid, remaining_seconds = rem, timer_active = True,
      stacked = break_widget, analytics = default_analytics, progress_file = NoFile\<rparr>"

section \<open>Predicates of the statements\<close>

text \<open>Between two states the answer dicts are the same, or both are empty afterwards.\<close>

definition answers_kept_or_cleared :: "app \<Rightarrow> app \<Rightarrow> bool" where
  "answers_kept_or_cleared s s' \<longleftrightarrow>
     user_answers (test_state s') = user_answers (test_state s)
     \<or> user_answers (test_state s') = (\<lambda>sec. [])"

text \<open>The category that \<^verbatim>\<open>update_analytics\<close> reads from a question, whether the
  question at a position of the complete bank was answered and answered wrongly, and the
  number of such questions of a category.\<close>

definition category_of :: "question \<Rightarrow> string" where
  "category_of q = (case q_category q of None \<Rightarrow> ''Uncategorized'' | Some c \<Rightarrow> c)"

definition answered_wrong :: "(pykey \<times> string) list \<Rightarrow> nat \<times> question \<Rightarrow> bool" where
  "answered_wrong answers iq \<longleftrightarrow>
     map_of answers (IntKey (int (fst iq))) \<noteq> None
     \<and> map_of answers (IntKey (int (fst iq))) \<noteq> q_answer (snd iq)"

definition wrong_in_category :: "(pykey \<times> string) list \<Rightarrow> question list \<Rightarrow> string \<Rightarrow> nat" where
  "wrong_in_category answers qs c =
     length (filter (\<lambda>iq. answered_wrong answers iq \<and> category_of (snd iq) = c)
                    (enumerate 0 qs))"

text \<open>The progress file of a session interrupted in the MATH section at question \<open>idx\<close>
  with 123 seconds left and one recorded answer, with \<open>qs\<close> under the key
  \<^verbatim>\<open>"questions"\<close>.\<close>

definition ex_snapshot :: "int \<Rightarrow> question list option \<Rightarrow> snapshot" where
  "ex_snapshot idx qs =
     \<lparr>snap_test_state =
        Some (dump_state (test_state (ex_session MATH idx 123 [(IntKey 0, ''B'')]))),
      snap_questions = qs, snap_remaining_seconds = Some 123\<rparr>"

text \<open>The invariant of the session state. The indices are not negative, the active
  questions have the four keys, and with an active question set there is a current
  section and (\<open>core_ok\<close>) its index is below the length of the set.\<close>

definition pre_ok :: "'k tstate \<Rightarrow> question list \<Rightarrow> bool" where
  "pre_ok ts qs \<longleftrightarrow>
     0 \<le> rw_index ts \<and> 0 \<le> math_index ts \<and> list_all is_valid qs
     \<and> (qs = [] \<or> current_section ts \<noteq> None)"

definition core_ok :: "'k tstate \<Rightarrow> question list \<Rightarrow> bool" where
  "core_ok ts qs \<longleftrightarrow>
     pre_ok ts qs
     \<and> (qs = [] \<or> (if current_section ts = Some RW then rw_index ts else math_index ts)
                       < int (length qs))"

text \<open>A progress file, if there is one that parses, holds a test state and a question
  set with the invariant.\<close>

definition file_ok :: "progress_file \<Rightarrow> bool" where
  "file_ok pf =
     (case pf of
        NoFile \<Rightarrow> True
      | CorruptFile \<Rightarrow> True
      | SavedFile snap \<Rightarrow>
          (case snap_test_state snap of
             None \<Rightarrow> False
           | Some ts \<Rightarrow>
               (case snap_questions snap of None \<Rightarrow> False | Some qs \<Rightarrow> core_ok ts qs)))"

text \<open>While the test widget is shown, a current section has an active question set.\<close>

definition widget_ok :: "app \<Rightarrow> bool" where
  "widget_ok s \<longleftrightarrow>
     stacked s \<noteq> test_widget \<or> current_section (test_state s) = None \<or> questions s \<noteq> []"

definition sound :: "app \<Rightarrow> bool" where
  "sound s \<longleftrightarrow>
     core_ok (test_state s) (questions s) \<and> file_ok (progress_file s) \<and> widget_ok s"

text \<open>The values of an answer dict are choice letters; so are those of both answer dicts
  of a test state, in memory and in the progress file.\<close>

definition letters_only :: "('k \<times> string) list \<Rightarrow> bool" where
  "letters_only d \<longleftrightarrow> list_all (\<lambda>kv. snd kv \<in> {''A'', ''B'', ''C'', ''D''}) d"

definition ua_ok :: "'k tstate \<Rightarrow> bool" where
  "ua_ok ts \<longleftrightarrow> letters_only (user_answers ts RW) \<and> letters_only (user_answers ts MATH)"

definition answers_ok :: "app \<Rightarrow> bool" where
  "answers_ok s \<longleftrightarrow>
     ua_ok (test_state s)
     \<and> (case progress_file s of
          NoFile \<Rightarrow> True
        | CorruptFile \<Rightarrow> True
        | SavedFile snap \<Rightarrow> (case snap_test_state snap of None \<Rightarrow> True | Some ts \<Rightarrow> ua_ok ts))"

text \<open>The states the program reaches by itself. A process starts without a progress
  file, or on the progress file that a reachable state left on disk (the process may end
  at any moment, and the user may or may not resume); a slot of the application (start
  button, radio buttons, previous, next, submit, the timer, continue, back to menu) that
  returns leads from a reachable state to a reachable state. The checked radio button,
  if there is one, is one of those that \<^verbatim>\<open>test_screen\<close> creates. The answers to the prompts,
  the random numbers, the clock, the analytics read at a start, the configuration and
  the bank files are arbitrary at every step, and which widget is visible is not taken
  into account, so the set is rather too large than too small.\<close>

inductive reachable :: "app \<Rightarrow> bool" where
  r_init: "init cfg rs now reply an NoFile = Inr s' \<Longrightarrow> reachable s'"
| r_restart: "reachable s \<Longrightarrow> init cfg rs now reply an (progress_file s) = Inr s'
              \<Longrightarrow> reachable s'"
| r_start_full_test: "reachable s \<Longrightarrow> start_full_test cfg rs now s = Inr s' \<Longrightarrow> reachable s'"
| r_save_answer: "reachable s \<Longrightarrow> checked \<in> insert None (Some ` set choices_buttons)
                  \<Longrightarrow> save_answer checked s = Inr s' \<Longrightarrow> reachable s'"
| r_prev_question: "reachable s \<Longrightarrow> prev_question s = Inr s' \<Longrightarrow> reachable s'"
| r_next_question: "reachable s \<Longrightarrow> next_question s = Inr s' \<Longrightarrow> reachable s'"
| r_submit_section: "reachable s \<Longrightarrow> reachable (submit_section cfg today reply s)"
| r_update_timer: "reachable s \<Longrightarrow> reachable (update_timer cfg today reply s)"
| r_start_next_section: "reachable s \<Longrightarrow> start_next_section cfg rs now s = Inr s'
                         \<Longrightarrow> reachable s'"
| r_back_to_menu: "reachable s \<Longrightarrow> reachable (back_to_menu s)"

text \<open>The state after a start without a progress file, and the state after a click on
  the start button in it.\<close>

definition ex_menu :: app where
  "ex_menu =
     \<lparr>test_state = fresh_test_state (Some MENU), questions = [], remaining_seconds = 0,
      timer_active = False, stacked = menu_widget, analytics = default_analytics,
      progress_file = NoFile\<rparr>"

definition ex_started :: app where
  "ex_started =
     (case start_full_test ex_config [3, 2, 4, 2, 5] 0 ex_menu of
        Inr s \<Rightarrow> s
      | Inl e \<Rightarrow> ex_menu)"

text \<open>The state after a click on Next in \<open>ex_started\<close>, and the state of a new process
  that finds the progress file of that state and is told to resume.\<close>

definition ex_next :: app where
  "ex_next = (case next_question ex_started of Inr s \<Rightarrow> s | Inl e \<Rightarrow> ex_menu)"

definition ex_resumed :: app where
  "ex_resumed =
     (case init ex_config [] 0 True default_analytics (progress_file ex_next) of
        Inr s \<Rightarrow> s
      | Inl e \<Rightarrow> ex_menu)"


section \<open>Declined submission\<close>

text \<open>
  Claim C8. When the user answers "No" to the submit confirmation, \<^verbatim>\<open>submit_section\<close>
  returns the state it was given with the timer running: the remaining seconds, the phase,
  the current section, the indices, the answers, the questions, the analytics and the
  progress file are all unchanged, and the countdown resumes from the same value.
\<close>

theorem C8_declined_submit_keeps_state:
  "submit_section cfg today False s = s\<lparr>timer_active := True\<rparr>"
  by (simp add: submit_section_def)

section \<open>Timer expiry\<close>

lemma start_break_fields:
  "test_phase (test_state (start_break cfg s)) = Some BREAK"
  "stacked (start_break cfg s) = break_widget"
  "timer_active (start_break cfg s)"
  "remaining_seconds (start_break cfg s) =
     (case break_duration_minutes cfg of None \<Rightarrow> 10 | Some m \<Rightarrow> m) * 60"
  "current_section (test_state (start_break cfg s)) = current_section (test_state s)"
  "questions (start_break cfg s) = questions s"
  "analytics (start_break cfg s) = analytics s"
  by (simp_all add: start_break_def save_progress_def)

lemma show_results_fields:
  "stacked (show_results cfg today s) = review_widget"
  "progress_file (show_results cfg today s) = NoFile"
  "\<not> timer_active (show_results cfg today s)"
  "test_state (show_results cfg today s) = test_state s"
  "questions (show_results cfg today s) = questions s"
  "remaining_seconds (show_results cfg today s) = remaining_seconds s"
  "tests_taken (analytics (show_results cfg today s)) = tests_taken (analytics s) + 1"
  by (simp_all add: show_results_def update_analytics_def save_progress_def Let_def)

lemma update_timer_expired:
  "remaining_seconds s \<le> 0 \<Longrightarrow> update_timer cfg today reply s = submit_section cfg today reply s"
  by (simp add: update_timer_def submit_section_def)

lemma submit_section_confirmed:
  "submit_section cfg today True s =
     (if current_section (test_state s) = Some RW then start_break cfg (s\<lparr>timer_active := False\<rparr>)
      else show_results cfg today (s\<lparr>timer_active := False\<rparr>))"
  by (simp add: submit_section_def)


section \<open>Sampling\<close>

lemma mset_remove_position:
  assumes "j < length pool"
  shows "add_mset (pool ! j) (mset (butlast (pool[j := last pool]))) = mset pool"
proof (cases pool rule: rev_cases)
  case Nil
  then show ?thesis using assms by simp
next
  case (snoc xs l)
  show ?thesis
  proof (cases "j < length xs")
    case True
    then show ?thesis
      by (simp add: snoc list_update_append nth_append mset_update)
  next
    case False
    then have "j = length xs" using assms snoc by simp
    then show ?thesis by (simp add: snoc)
  qed
qed

lemma sample_pool_props:
  "k \<le> length pool \<Longrightarrow>
     length (sample_pool pool k rs) = k \<and> mset (sample_pool pool k rs) \<subseteq># mset pool"
proof (induction k arbitrary: pool rs)
  case 0
  then show ?case by simp
next
  case (Suc k)
  define j where "j = (case rs of [] \<Rightarrow> 0 | r # _ \<Rightarrow> r mod length pool)"
  define pool' where "pool' = butlast (pool[j := last pool])"
  have pos: "0 < length pool" using Suc.prems by linarith
  have j: "j < length pool" using pos by (simp add: j_def split: list.splits)
  have len: "k \<le> length pool'" using Suc.prems by (simp add: pool'_def)
  have m: "add_mset (pool ! j) (mset pool') = mset pool"
    unfolding pool'_def by (rule mset_remove_position [OF j])
  have e: "sample_pool pool (Suc k) rs = pool ! j # sample_pool pool' k (tl rs)"
    by (simp add: j_def pool'_def Let_def)
  from Suc.IH [OF len, of "tl rs"]
  have "length (sample_pool pool' k (tl rs)) = k"
    and "mset (sample_pool pool' k (tl rs)) \<subseteq># mset pool'" by simp_all
  then show ?case unfolding e using m
    by (metis add_mset_add_single length_Cons mset.simps(2) subset_mset.add_right_mono union_commute)
qed

lemma mset_subset_same_size:
  fixes A B :: "'a multiset"
  assumes "A \<subseteq># B" and "size A = size B"
  shows "A = B"
proof -
  obtain C where C: "B = A + C" using assms(1) by (auto simp: mset_subset_eq_exists_conv)
  then have "size C = 0" using assms(2) by simp
  then show ?thesis using C by simp
qed

lemma load_questions_sampled:
  assumes "question_banks cfg sec = BankData (Some qs)"
    and "filter is_valid qs \<noteq> []"
    and "0 \<le> total_questions cfg sec"
  shows "load_questions cfg sec False rs =
           sample_pool (filter is_valid qs)
             (min (length (filter is_valid qs)) (nat (total_questions cfg sec))) rs"
proof -
  have "nat (min (int (length (filter is_valid qs))) (total_questions cfg sec))
          = min (length (filter is_valid qs)) (nat (total_questions cfg sec))"
    using assms(3) by simp
  then show ?thesis
    using assms by (simp add: load_questions_def py_sample_def Let_def)
qed

text \<open>
  Claim C7. When the bank file of a section holds a list with at least one valid entry
  and the configured number \<open>n\<close> of questions is not negative, the sampled load returns
  exactly \<open>min (number of valid entries) n\<close> questions, each taken from a different
  position of the list of valid entries (an entry is valid when it has the keys id,
  question, options and answer), whatever the random numbers; when \<open>n\<close> is at least the
  number of valid entries the result is a rearrangement of all of them.
\<close>

theorem C7_sampled_load_valid_only:
  assumes "question_banks cfg sec = BankData (Some qs)"
    and "filter is_valid qs \<noteq> []"
    and "0 \<le> total_questions cfg sec"
  shows "length (load_questions cfg sec False rs)
           = min (length (filter is_valid qs)) (nat (total_questions cfg sec))
       \<and> mset (load_questions cfg sec False rs) \<subseteq># mset (filter is_valid qs)
       \<and> (\<forall>q \<in> set (load_questions cfg sec False rs).
             q \<in> set qs \<and> q_id q \<noteq> None \<and> q_question q \<noteq> None
             \<and> q_options q \<noteq> None \<and> q_answer q \<noteq> None)
       \<and> (int (length (filter is_valid qs)) \<le> total_questions cfg sec \<longrightarrow>
             mset (load_questions cfg sec False rs) = mset (filter is_valid qs))"
proof -
  let ?valid = "filter is_valid qs"
  let ?k = "min (length ?valid) (nat (total_questions cfg sec))"
  let ?r = "load_questions cfg sec False rs"
  have r: "?r = sample_pool ?valid ?k rs" by (rule load_questions_sampled [OF assms])
  have "?k \<le> length ?valid" by simp
  from sample_pool_props [OF this, of rs]
  have len: "length ?r = ?k" and sub: "mset ?r \<subseteq># mset ?valid" by (simp_all add: r)
  have "set ?r \<subseteq> set ?valid" using sub by (metis set_mset_mono set_mset_mset)
  then have mem: "\<forall>q \<in> set ?r. q \<in> set qs \<and> q_id q \<noteq> None \<and> q_question q \<noteq> None
             \<and> q_options q \<noteq> None \<and> q_answer q \<noteq> None"
    by (auto simp: is_valid_def)
  have all: "mset ?r = mset ?valid" if "int (length ?valid) \<le> total_questions cfg sec"
  proof -
    have "?k = length ?valid" using that by simp
    then have "length ?r = length ?valid" using len by simp
    then have "size (mset ?r) = size (mset ?valid)" by (simp only: size_mset)
    with sub show ?thesis by (rule mset_subset_same_size)
  qed
  show ?thesis using len sub mem all by blast
qed

theorem C7_sampled_load_witness:
  "question_banks ex_config RW = BankData (Some ex_bank)
   \<and> length ex_bank = 8
   \<and> filter is_valid ex_bank = ex_valid
   \<and> length ex_valid = 5
   \<and> total_questions ex_config RW = 27
   \<and> length (load_questions ex_config RW False [3, 1, 4, 1, 5]) = 5
   \<and> mset (load_questions ex_config RW False [3, 1, 4, 1, 5]) = mset ex_valid
   \<and> ex_malformed ''X1'' \<notin> set (load_questions ex_config RW False [3, 1, 4, 1, 5])"
proof -
  have b: "question_banks ex_config RW = BankData (Some ex_bank)"
    and n: "total_questions ex_config RW = 27"
    by (simp_all add: ex_config_def)
  have v: "filter is_valid ex_bank = ex_valid"
    by (simp add: ex_bank_def ex_valid_def is_valid_def ex_question_def ex_malformed_def)
  have l: "length ex_valid = 5" "length ex_bank = 8" by (simp_all add: ex_valid_def ex_bank_def)
  have ne: "filter is_valid ex_bank \<noteq> []" using v l by auto
  have nn: "0 \<le> total_questions ex_config RW" by (simp add: n)
  have m: "\<not> q_answer (ex_malformed ''X1'') \<noteq> None" by (simp add: ex_malformed_def)
  from C7_sampled_load_valid_only [OF b ne nn, of "[3, 1, 4, 1, 5]"]
  have "length (load_questions ex_config RW False [3, 1, 4, 1, 5]) = 5"
    and "mset (load_questions ex_config RW False [3, 1, 4, 1, 5]) = mset ex_valid"
    and "ex_malformed ''X1'' \<notin> set (load_questions ex_config RW False [3, 1, 4, 1, 5])"
    using m by (auto simp: v l n)
  then show ?thesis using b n v l by simp
qed

section \<open>End of the break\<close>

text \<open>
  Claim C2 at the end of the break: \<^verbatim>\<open>update_timer\<close> does not look at the phase and
  calls \<^verbatim>\<open>submit_section\<close>; the current section is still RW, so a confirmed prompt
  starts the break again with the full break time and the RW questions, and a declined
  prompt leaves the break as it is. The MATH section is reached only through
  \<^verbatim>\<open>start_next_section\<close>, the slot of the continue button.
\<close>

theorem C2_break_expiry_restarts_break:
  "test_phase (test_state (ex_break 0)) = Some BREAK
   \<and> remaining_seconds (ex_break 0) = 0
   \<and> test_phase (test_state (update_timer ex_config ''2025-06-01'' True (ex_break 0))) = Some BREAK
   \<and> current_section (test_state (update_timer ex_config ''2025-06-01'' True (ex_break 0))) = Some RW
   \<and> stacked (update_timer ex_config ''2025-06-01'' True (ex_break 0)) = break_widget
   \<and> remaining_seconds (update_timer ex_config ''2025-06-01'' True (ex_break 0)) = 600
   \<and> questions (update_timer ex_config ''2025-06-01'' True (ex_break 0)) = questions (ex_break 0)
   \<and> update_timer ex_config ''2025-06-01'' False (ex_break 0) = ex_break 0"
proof -
  let ?s = "ex_break 0"
  have r: "remaining_seconds ?s \<le> 0" and c: "current_section (test_state ?s) = Some RW"
    by (simp_all add: ex_break_def)
  have y: "update_timer ex_config ''2025-06-01'' True ?s = start_break ex_config (?s\<lparr>timer_active := False\<rparr>)"
    using c by (simp add: update_timer_expired [OF r] submit_section_confirmed)
  have n: "update_timer ex_config ''2025-06-01'' False ?s = ?s"
    by (simp add: update_timer_expired [OF r] submit_section_def) (simp add: ex_break_def)
  show ?thesis
    unfolding y n by (simp add: start_break_fields) (simp add: ex_break_def ex_config_def)
qed

section \<open>Weakest categories\<close>

lemma weak_step_at:
  "weak_step answers iq w c =
     (if answered_wrong answers iq \<and> category_of (snd iq) = c
      then Some ((case w c of None \<Rightarrow> 0 | Some n \<Rightarrow> n) + 1)
      else w c)"
  by (simp add: weak_step_def answered_wrong_def category_of_def Let_def)

lemma fold_weak_step:
  "fold (weak_step answers) iqs w c =
     (let n = length (filter (\<lambda>iq. answered_wrong answers iq \<and> category_of (snd iq) = c) iqs)
      in if n = 0 then w c
         else Some ((case w c of None \<Rightarrow> 0 | Some k \<Rightarrow> k) + int n))"
proof (induction iqs arbitrary: w)
  case Nil
  then show ?case by simp
next
  case (Cons iq iqs)
  let ?P = "\<lambda>iq. answered_wrong answers iq \<and> category_of (snd iq) = c"
  have "fold (weak_step answers) (iq # iqs) w c
          = fold (weak_step answers) iqs (weak_step answers iq w) c"
    by simp
  also have "\<dots> =
     (if length (filter ?P iqs) = 0 then weak_step answers iq w c
      else Some ((case weak_step answers iq w c of None \<Rightarrow> 0 | Some k \<Rightarrow> k)
                 + int (length (filter ?P iqs))))"
    by (simp only: Cons.IH Let_def)
  also have "\<dots> =
     (let n = length (filter ?P (iq # iqs))
      in if n = 0 then w c
         else Some ((case w c of None \<Rightarrow> 0 | Some k \<Rightarrow> k) + int n))"
    by (cases "?P iq"; cases "w c"; simp add: weak_step_at Let_def)
  finally show ?case .
qed

lemma weakest_update_analytics:
  "weakest_categories (analytics (update_analytics cfg today rw_sd math_sd s)) sec =
     fold (weak_step (user_answers (test_state s) sec))
          (enumerate 0 (load_questions cfg sec True [])) (weakest_categories (analytics s) sec)"
  by (simp add: update_analytics_def Let_def)

text \<open>
  Claim C3, as amended. \<^verbatim>\<open>update_analytics\<close> raises the count of a category of a
  section by the number of questions of the complete bank in that category that have a
  recorded answer different from the correct one, one per question (the second part: a
  further question adds 1 exactly when it is answered, answered wrongly and of that
  category). A question with no recorded answer adds nothing.
\<close>

theorem C3_weakest_counts_answered_wrong:
  "weakest_categories (analytics (update_analytics cfg today rw_sd math_sd s)) sec c =
     (let n = wrong_in_category (user_answers (test_state s) sec) (load_questions cfg sec True []) c;
          old = weakest_categories (analytics s) sec c
      in if n = 0 then old else Some ((case old of None \<Rightarrow> 0 | Some k \<Rightarrow> k) + int n))
   \<and> wrong_in_category answers (qs @ [q]) c =
       wrong_in_category answers qs c
       + (if map_of answers (IntKey (int (length qs))) \<noteq> None
             \<and> map_of answers (IntKey (int (length qs))) \<noteq> q_answer q
             \<and> category_of q = c then 1 else 0)"
  by (simp add: weakest_update_analytics fold_weak_step wrong_in_category_def Let_def
        enumerate_append_eq answered_wrong_def)

lemma load_ex_bank: "load_questions ex_config sec True [] = ex_valid"
  by (simp add: load_questions_def ex_config_def ex_bank_def ex_valid_def is_valid_def
        ex_question_def ex_malformed_def)

lemma wrong_ex: "wrong_in_category [(IntKey 0, ''B'')] ex_valid ''Main Idea'' = 1"
  "wrong_in_category [(IntKey 0, ''B'')] ex_valid ''Vocabulary'' = 0"
  "wrong_in_category [] ex_valid ''Main Idea'' = 0"
  by (simp_all add: wrong_in_category_def ex_valid_def answered_wrong_def category_of_def
        ex_question_def)

theorem C3_weakest_witness:
  "weakest_categories (analytics (ex_session RW 0 10 [(IntKey 0, ''B'')])) RW ''Main Idea'' = None
   \<and> weakest_categories
        (analytics (update_analytics ex_config ''2025-06-01'' \<lparr>correct = 0, total = 5\<rparr>
                      \<lparr>correct = 0, total = 5\<rparr> (ex_session RW 0 10 [(IntKey 0, ''B'')])))
        RW ''Main Idea'' = Some 1
   \<and> weakest_categories
        (analytics (update_analytics ex_config ''2025-06-01'' \<lparr>correct = 0, total = 5\<rparr>
                      \<lparr>correct = 0, total = 5\<rparr> (ex_session RW 0 10 [(IntKey 0, ''B'')])))
        RW ''Vocabulary'' = None"
proof -
  let ?s = "ex_session RW 0 10 [(IntKey 0, ''B'')]"
  have a: "user_answers (test_state ?s) RW = [(IntKey 0, ''B'')]"
    and w: "weakest_categories (analytics ?s) RW = Map.empty"
    by (simp_all add: ex_session_def default_analytics_def)
  show ?thesis
    using C3_weakest_counts_answered_wrong
            [of ex_config "''2025-06-01''" "\<lparr>correct = 0, total = 5\<rparr>"
                "\<lparr>correct = 0, total = 5\<rparr>" ?s RW "''Main Idea''"]
          C3_weakest_counts_answered_wrong
            [of ex_config "''2025-06-01''" "\<lparr>correct = 0, total = 5\<rparr>"
                "\<lparr>correct = 0, total = 5\<rparr>" ?s RW "''Vocabulary''"]
    by (simp add: a w load_ex_bank wrong_ex)
qed

text \<open>
  The claim as stated fails: question 0 of the complete RW bank has the correct answer C
  and the category Main Idea, the user has recorded no answer for it, and the count of
  Main Idea is not raised.
\<close>

theorem C3_counterexample:
  "q_answer (load_questions ex_config RW True [] ! 0) = Some ''C''
   \<and> q_category (load_questions ex_config RW True [] ! 0) = Some ''Main Idea''
   \<and> map_of (user_answers (test_state (ex_session MATH 4 0 [])) RW) (IntKey 0) = None
   \<and> weakest_categories (analytics (ex_session MATH 4 0 [])) RW ''Main Idea'' = None
   \<and> weakest_categories
        (analytics (update_analytics ex_config ''2025-06-01'' \<lparr>correct = 0, total = 5\<rparr>
                      \<lparr>correct = 0, total = 5\<rparr> (ex_session MATH 4 0 [])))
        RW ''Main Idea'' = None"
proof -
  let ?s = "ex_session MATH 4 0 []"
  have a: "user_answers (test_state ?s) RW = []"
    and w: "weakest_categories (analytics ?s) RW = Map.empty"
    by (simp_all add: ex_session_def default_analytics_def)
  have q: "q_answer (ex_valid ! 0) = Some ''C''" "q_category (ex_valid ! 0) = Some ''Main Idea''"
    by (simp_all add: ex_valid_def ex_question_def)
  show ?thesis
    by (simp add: weakest_update_analytics fold_weak_step a w load_ex_bank q answered_wrong_def)
qed

section \<open>Save and reload\<close>

lemma load_dump_state:
  "load_state (dump_state ts) = ts\<lparr>user_answers := \<lambda>sec. load_dict (dump_dict (user_answers ts sec))\<rparr>"
  by (simp add: load_state_def dump_state_def)

lemma load_dump_empty: "load_dict (dump_dict []) = []"
  by (simp add: load_dict_def dump_dict_def)

lemma reload_after_save:
  "load_progress True
     (s0\<lparr>progress_file := progress_file (save_progress False s)\<rparr>) =
   s0\<lparr>progress_file := progress_file (save_progress False s),
      test_state := (test_state s)\<lparr>user_answers :=
                       \<lambda>sec. load_dict (dump_dict (user_answers (test_state s) sec))\<rparr>,
      questions := questions s, remaining_seconds := remaining_seconds s\<rparr>"
  by (simp add: load_progress_def save_progress_def load_dump_state)

lemma json_key_examples: "json_key (IntKey 0) = ''0''" "json_key (IntKey 4) = ''4''"
  by code_simp+

text \<open>
  Claim C4 on a session in the MATH section at question 4 with two recorded answers.
  \<^verbatim>\<open>save_progress\<close> followed by \<^verbatim>\<open>load_progress\<close> in a new process (the user choosing
  to resume) restores the questions, the remaining seconds and every field of the test
  state except the answer dicts (\<open>reload_after_save\<close>): their keys were integers and come
  back as strings, so the reloaded test state differs from the saved one and a lookup
  with the integer index 4, as \<^verbatim>\<open>show_question\<close> and the scoring do, finds no answer.
\<close>

theorem C4_reload_turns_answer_keys_into_strings:
  "user_answers (test_state (ex_session MATH 4 123 [(IntKey 0, ''B''), (IntKey 4, ''C'')])) MATH
     = [(IntKey 0, ''B''), (IntKey 4, ''C'')]
   \<and> user_answers (test_state (load_progress True
        \<lparr>test_state = fresh_test_state None, questions = [], remaining_seconds = 0,
         timer_active = False, stacked = menu_widget, analytics = default_analytics,
         progress_file = progress_file (save_progress False
            (ex_session MATH 4 123 [(IntKey 0, ''B''), (IntKey 4, ''C'')]))\<rparr>)) MATH
     = [(StrKey ''0'', ''B''), (StrKey ''4'', ''C'')]
   \<and> map_of (user_answers (test_state (load_progress True
        \<lparr>test_state = fresh_test_state None, questions = [], remaining_seconds = 0,
         timer_active = False, stacked = menu_widget, analytics = default_analytics,
         progress_file = progress_file (save_progress False
            (ex_session MATH 4 123 [(IntKey 0, ''B''), (IntKey 4, ''C'')]))\<rparr>)) MATH)
        (IntKey 4) = None
   \<and> test_state (load_progress True
        \<lparr>test_state = fresh_test_state None, questions = [], remaining_seconds = 0,
         timer_active = False, stacked = menu_widget, analytics = default_analytics,
         progress_file = progress_file (save_progress False
            (ex_session MATH 4 123 [(IntKey 0, ''B''), (IntKey 4, ''C'')]))\<rparr>)
     \<noteq> test_state (ex_session MATH 4 123 [(IntKey 0, ''B''), (IntKey 4, ''C'')])"
proof -
  let ?s = "ex_session MATH 4 123 [(IntKey 0, ''B''), (IntKey 4, ''C'')]"
  let ?init = "\<lparr>test_state = fresh_test_state None, questions = [], remaining_seconds = 0,
         timer_active = False, stacked = menu_widget, analytics = default_analytics,
         progress_file = NoFile\<rparr>"
  let ?f = "\<lparr>test_state = fresh_test_state None, questions = [], remaining_seconds = 0,
         timer_active = False, stacked = menu_widget, analytics = default_analytics,
         progress_file = progress_file (save_progress False ?s)\<rparr>"
  have e: "?f = ?init\<lparr>progress_file := progress_file (save_progress False ?s)\<rparr>" by simp
  have r: "user_answers (test_state (load_progress True ?f)) MATH
             = load_dict (dump_dict (user_answers (test_state ?s) MATH))"
    unfolding e reload_after_save by simp
  have a: "user_answers (test_state ?s) MATH = [(IntKey 0, ''B''), (IntKey 4, ''C'')]"
    by (simp add: ex_session_def)
  have l: "load_dict (dump_dict [(IntKey 0, ''B''), (IntKey 4, ''C'')])
             = [(StrKey ''0'', ''B''), (StrKey ''4'', ''C'')]"
    by (simp add: load_dict_def dump_dict_def json_key_examples)
  have b: "user_answers (test_state (load_progress True ?f)) MATH
             = [(StrKey ''0'', ''B''), (StrKey ''4'', ''C'')]"
    unfolding r a l ..
  have c: "map_of (user_answers (test_state (load_progress True ?f)) MATH) (IntKey 4) = None"
    unfolding b by simp
  have "user_answers (test_state (load_progress True ?f)) MATH
          \<noteq> user_answers (test_state ?s) MATH"
    unfolding a b by simp
  then have d: "test_state (load_progress True ?f) \<noteq> test_state ?s" by auto
  show ?thesis using a b c d by blast
qed

section \<open>Running average\<close>

lemma fl_values:
  "fl 0 = 0" "fl 80 = 80" "fl 140 = 140" "fl 70 = 70"
  by (simp_all add: fl_def round_even_def pow2_def Let_def)

lemma fl_percent:
  "fl (fl (4 / 5) * 100) = 80"
  "fl (fl (3 / 5) * 100) = 60"
  by (simp_all add: fl_def round_even_def pow2_def Let_def)

lemma percentage_80:
  assumes "0 < total sd" and "5 * correct sd = 4 * total sd"
  shows "percentage sd = 80"
proof -
  have "(5::real) * of_int (correct sd) = 4 * of_int (total sd)"
    using assms(2) by (metis of_int_mult of_int_numeral)
  then have q: "real_of_int (correct sd) / real_of_int (total sd) = 4 / 5"
    using assms(1) by (simp add: field_simps)
  have "percentage sd = fl (fl (4 / 5) * 100)"
    unfolding percentage_def py_mul_def py_truediv_def q using assms(1) by simp
  then show ?thesis by (simp only: fl_percent)
qed

lemma percentage_60:
  assumes "0 < total sd" and "5 * correct sd = 3 * total sd"
  shows "percentage sd = 60"
proof -
  have "(5::real) * of_int (correct sd) = 3 * of_int (total sd)"
    using assms(2) by (metis of_int_mult of_int_numeral)
  then have q: "real_of_int (correct sd) / real_of_int (total sd) = 3 / 5"
    using assms(1) by (simp add: field_simps)
  have "percentage sd = fl (fl (3 / 5) * 100)"
    unfolding percentage_def py_mul_def py_truediv_def q using assms(1) by simp
  then show ?thesis by (simp only: fl_percent)
qed

lemma first_average: "new_average a 1 80 = 80"
  by (simp add: new_average_def py_truediv_def py_add_def py_mul_def fl_values)

lemma second_average: "new_average 80 2 60 = 70"
  by (simp add: new_average_def py_truediv_def py_add_def py_mul_def fl_values)

lemma update_analytics_fields:
  "tests_taken (analytics (update_analytics cfg today rw_sd math_sd s)) = tests_taken (analytics s) + 1"
  "average_scores (analytics (update_analytics cfg today rw_sd math_sd s)) RW =
     new_average (average_scores (analytics s) RW) (tests_taken (analytics s) + 1) (percentage rw_sd)"
  "average_scores (analytics (update_analytics cfg today rw_sd math_sd s)) MATH =
     new_average (average_scores (analytics s) MATH) (tests_taken (analytics s) + 1) (percentage math_sd)"
  by (simp_all add: update_analytics_def Let_def)

text \<open>
  Claim C6. With a test counter that is not negative, \<^verbatim>\<open>update_analytics\<close> increments
  the counter to \<open>n\<close> and sets the average of each section to
  \<open>(oldAvg * (n - 1) + newPct) / n\<close>, every operation being a float operation; the
  percentage is \<open>correct / total * 100\<close> when \<open>total > 0\<close> and 0 otherwise. Starting from
  zero tests taken, a first test with four fifths of the RW answers correct followed by a
  second with three fifths correct gives the floats 80.0 and then exactly 70.0 as the RW
  average, whatever the totals and the previous average.
\<close>

theorem C6_running_average:
  assumes "0 \<le> tests_taken (analytics s)"
  shows "tests_taken (analytics (update_analytics cfg today rw_sd math_sd s))
           = tests_taken (analytics s) + 1
       \<and> average_scores (analytics (update_analytics cfg today rw_sd math_sd s)) RW =
           py_truediv
             (py_add (py_mul (average_scores (analytics s) RW)
                             (of_int (tests_taken (analytics s) + 1 - 1)))
                     (percentage rw_sd))
             (of_int (tests_taken (analytics s) + 1))
       \<and> average_scores (analytics (update_analytics cfg today rw_sd math_sd s)) MATH =
           py_truediv
             (py_add (py_mul (average_scores (analytics s) MATH)
                             (of_int (tests_taken (analytics s) + 1 - 1)))
                     (percentage math_sd))
             (of_int (tests_taken (analytics s) + 1))
       \<and> percentage rw_sd =
           (if 0 < total rw_sd
            then py_mul (py_truediv (of_int (correct rw_sd)) (of_int (total rw_sd))) 100 else 0)
       \<and> (tests_taken (analytics s) = 0 \<and> 0 < total rw_sd \<and> 5 * correct rw_sd = 4 * total rw_sd
            \<and> 0 < total rw_sd2 \<and> 5 * correct rw_sd2 = 3 * total rw_sd2 \<longrightarrow>
           average_scores (analytics (update_analytics cfg today rw_sd math_sd s)) RW = 80
         \<and> average_scores
              (analytics (update_analytics cfg today2 rw_sd2 math_sd2
                            (update_analytics cfg today rw_sd math_sd s))) RW = 70)"
proof -
  have n: "0 < tests_taken (analytics s) + 1" using assms by simp
  have ex: "average_scores (analytics (update_analytics cfg today rw_sd math_sd s)) RW = 80
         \<and> average_scores
              (analytics (update_analytics cfg today2 rw_sd2 math_sd2
                            (update_analytics cfg today rw_sd math_sd s))) RW = 70"
    if "tests_taken (analytics s) = 0" "0 < total rw_sd" "5 * correct rw_sd = 4 * total rw_sd"
       "0 < total rw_sd2" "5 * correct rw_sd2 = 3 * total rw_sd2"
    using that
    by (simp add: update_analytics_fields percentage_80 percentage_60 first_average second_average)
  have gen: "average_scores (analytics (update_analytics cfg today rw_sd math_sd s)) sec =
           py_truediv
             (py_add (py_mul (average_scores (analytics s) sec)
                             (of_int (tests_taken (analytics s) + 1 - 1)))
                     (percentage (case sec of RW \<Rightarrow> rw_sd | MATH \<Rightarrow> math_sd)))
             (of_int (tests_taken (analytics s) + 1))" for sec
    using n by (simp add: update_analytics_def Let_def new_average_def)
  show ?thesis
    using gen [of RW] gen [of MATH] ex update_analytics_fields(1) [of cfg today rw_sd math_sd s]
    by (simp add: percentage_def)
qed

theorem C6_running_average_witness:
  "0 \<le> tests_taken (analytics (ex_session MATH 4 0 []))
   \<and> tests_taken (analytics (ex_session MATH 4 0 [])) = 0
   \<and> percentage \<lparr>correct = 4, total = 5\<rparr> = 80
   \<and> percentage \<lparr>correct = 3, total = 5\<rparr> = 60
   \<and> average_scores
        (analytics (update_analytics ex_config ''2025-06-01'' \<lparr>correct = 4, total = 5\<rparr>
                      \<lparr>correct = 0, total = 5\<rparr> (ex_session MATH 4 0 []))) RW = 80
   \<and> average_scores
        (analytics (update_analytics ex_config ''2025-06-02'' \<lparr>correct = 3, total = 5\<rparr>
                      \<lparr>correct = 0, total = 5\<rparr>
                      (update_analytics ex_config ''2025-06-01'' \<lparr>correct = 4, total = 5\<rparr>
                         \<lparr>correct = 0, total = 5\<rparr> (ex_session MATH 4 0 [])))) RW = 70"
proof -
  let ?s = "ex_session MATH 4 0 []"
  have t: "tests_taken (analytics ?s) = 0" by (simp add: ex_session_def default_analytics_def)
  then have n: "0 \<le> tests_taken (analytics ?s)" by simp
  have h: "0 < total \<lparr>correct = 4, total = 5\<rparr>"
    "5 * correct \<lparr>correct = 4, total = 5\<rparr> = 4 * total \<lparr>correct = 4, total = 5\<rparr>"
    "0 < total \<lparr>correct = 3, total = 5\<rparr>"
    "5 * correct \<lparr>correct = 3, total = 5\<rparr> = 3 * total \<lparr>correct = 3, total = 5\<rparr>"
    by simp_all
  have p: "percentage \<lparr>correct = 4, total = 5\<rparr> = 80"
    "percentage \<lparr>correct = 3, total = 5\<rparr> = 60"
    by (rule percentage_80 percentage_60; simp)+
  show ?thesis
    using C6_running_average [OF n, of ex_config "''2025-06-01''" "\<lparr>correct = 4, total = 5\<rparr>"
            "\<lparr>correct = 0, total = 5\<rparr>" "\<lparr>correct = 3, total = 5\<rparr>" "''2025-06-02''"
            "\<lparr>correct = 0, total = 5\<rparr>"]
          t n h p
    by blast
qed

section \<open>Expiry of a section's time\<close>

text \<open>With no time left, \<^verbatim>\<open>update_timer\<close> is \<^verbatim>\<open>submit_section\<close>, prompt included: a
  confirmed prompt takes RW to the break and MATH to the results, a declined one gives
  back the state before the tick with the timer running.\<close>

lemma timer_expiry_runs_submit_section:
  assumes "remaining_seconds s \<le> 0"
  shows "update_timer cfg today reply s = submit_section cfg today reply s"
    and "current_section (test_state s) = Some RW \<Longrightarrow>
           test_phase (test_state (update_timer cfg today True s)) = Some BREAK
           \<and> stacked (update_timer cfg today True s) = break_widget"
    and "current_section (test_state s) = Some MATH \<Longrightarrow>
           stacked (update_timer cfg today True s) = review_widget
           \<and> progress_file (update_timer cfg today True s) = NoFile
           \<and> tests_taken (analytics (update_timer cfg today True s))
               = tests_taken (analytics s) + 1"
    and "update_timer cfg today False s = s\<lparr>timer_active := True\<rparr>"
  using assms
  by (simp_all add: update_timer_expired submit_section_confirmed start_break_fields
                    show_results_fields)
     (simp add: submit_section_def)

lemma declined_expiry_repeats:
  assumes "update_timer cfg today False s = s"
  shows "(update_timer cfg today False ^^ n) s = s"
  using assms by (induction n) simp_all

text \<open>
  Claim C1 in the RW section with no time left and the timer running. The tick stops the
  timer and calls \<^verbatim>\<open>submit_section\<close>, which asks "Are you sure you want to submit this
  section?"; with the answer "No" the timer is started again and the state is the one
  before the tick: the session is still in the running RW section with 0 seconds left,
  after one tick and after sixty, and it is not the state that a confirmed submit gives.
\<close>

theorem C1_expired_section_keeps_running:
  "remaining_seconds (ex_session RW 1 0 []) = 0
   \<and> timer_active (ex_session RW 1 0 [])
   \<and> test_phase (test_state (ex_session RW 1 0 [])) = Some (Running RW)
   \<and> update_timer ex_config ''2025-06-01'' False (ex_session RW 1 0 []) = ex_session RW 1 0 []
   \<and> (update_timer ex_config ''2025-06-01'' False ^^ 60) (ex_session RW 1 0 [])
        = ex_session RW 1 0 []
   \<and> test_phase (test_state (submit_section ex_config ''2025-06-01'' True (ex_session RW 1 0 [])))
        = Some BREAK
   \<and> update_timer ex_config ''2025-06-01'' False (ex_session RW 1 0 [])
        \<noteq> submit_section ex_config ''2025-06-01'' True (ex_session RW 1 0 [])"
proof -
  let ?s = "ex_session RW 1 0 []"
  have r: "remaining_seconds ?s = 0" and t: "timer_active ?s"
    and p: "test_phase (test_state ?s) = Some (Running RW)"
    and c: "current_section (test_state ?s) = Some RW"
    by (simp_all add: ex_session_def)
  have u: "update_timer ex_config ''2025-06-01'' False ?s = ?s"
    using r t by (simp add: update_timer_def submit_section_def)
  have n: "(update_timer ex_config ''2025-06-01'' False ^^ 60) ?s = ?s"
    using u by (rule declined_expiry_repeats)
  have b: "test_phase (test_state (submit_section ex_config ''2025-06-01'' True ?s)) = Some BREAK"
    using c by (simp add: submit_section_confirmed start_break_fields)
  then have d: "submit_section ex_config ''2025-06-01'' True ?s \<noteq> ?s"
    using p by auto
  show ?thesis using r t p u n b d by simp
qed

section \<open>The invariant of the session state\<close>

lemma load_questions_valid: "list_all is_valid (load_questions cfg sec for_analytics rs)"
proof (cases "question_banks cfg sec")
  case FileNotFound
  then show ?thesis by (simp add: load_questions_def)
next
  case InvalidJSON
  then show ?thesis by (simp add: load_questions_def)
next
  case (BankData data)
  let ?valid = "filter is_valid (case data of None \<Rightarrow> [] | Some l \<Rightarrow> l)"
  let ?k = "min (int (length ?valid)) (total_questions cfg sec)"
  have v: "list_all is_valid ?valid" by (simp add: list_all_iff)
  have s: "list_all is_valid (sample_pool ?valid (nat ?k) rs)" if "0 \<le> ?k"
  proof -
    have "nat ?k \<le> length ?valid" using that by simp
    from sample_pool_props [OF this, of rs]
    have "mset (sample_pool ?valid (nat ?k) rs) \<subseteq># mset ?valid" by blast
    then have "set (sample_pool ?valid (nat ?k) rs) \<subseteq> set ?valid"
      by (metis set_mset_mono set_mset_mset)
    then show ?thesis by (auto simp: list_all_iff)
  qed
  show ?thesis
    using BankData v s
    by (auto simp: load_questions_def py_sample_def Let_def simp del: filter_filter)
qed

lemma ok_dump_load:
  "pre_ok (dump_state ts) qs = pre_ok ts qs" "core_ok (dump_state ts) qs = core_ok ts qs"
  "pre_ok (load_state ts') qs = pre_ok ts' qs" "core_ok (load_state ts') qs = core_ok ts' qs"
  by (simp_all add: pre_ok_def core_ok_def dump_state_def load_state_def)

lemma core_ok_fresh: "core_ok (fresh_test_state p) []"
  by (simp add: core_ok_def pre_ok_def fresh_test_state_def)

lemma sound_back_to_menu: "sound (back_to_menu s)"
  by (simp add: sound_def back_to_menu_def save_progress_def core_ok_fresh file_ok_def
        widget_ok_def)

lemma sound_save_progress:
  assumes "core_ok (test_state u) (questions u)" and "widget_ok u"
  shows "sound (save_progress False u)"
  using assms
  by (simp add: sound_def save_progress_def file_ok_def ok_dump_load widget_ok_def)

lemma show_question_ok:
  assumes "pre_ok (test_state s) (questions s)"
  shows "show_question s =
           (if questions s = [] \<or> int (length (questions s)) \<le> current_index s
            then Inr (back_to_menu s) else Inr s)"
proof (cases "questions s = [] \<or> int (length (questions s)) \<le> current_index s")
  case True
  then show ?thesis by (auto simp: show_question_def Let_def)
next
  case False
  have i: "0 \<le> current_index s" using assms by (simp add: pre_ok_def current_index_def)
  have l: "current_index s < int (length (questions s))" using False by simp
  then have "nat (current_index s) < length (questions s)" using i by simp
  then have "is_valid (questions s ! nat (current_index s))"
    using assms by (simp add: pre_ok_def list_all_length)
  then have q: "q_question (questions s ! nat (current_index s)) \<noteq> None"
    "q_options (questions s ! nat (current_index s)) \<noteq> None"
    by (simp_all add: is_valid_def)
  have c: "current_section (test_state s) \<noteq> None"
    using assms False by (simp add: pre_ok_def)
  show ?thesis
    using False i l q c by (auto simp: show_question_def Let_def)
qed

lemma sound_show_question:
  assumes "sound s"
  shows "\<exists>t. show_question s = Inr t \<and> sound t"
proof -
  have "pre_ok (test_state s) (questions s)" using assms by (simp add: sound_def core_ok_def)
  then show ?thesis using assms by (simp add: show_question_ok sound_back_to_menu)
qed

lemma enter_test_widget_ok:
  assumes "pre_ok (test_state s) (questions s)"
  shows "enter_test_widget s =
           Inr (save_progress False
                  ((if questions s = [] \<or> int (length (questions s)) \<le> current_index s
                    then back_to_menu (s\<lparr>timer_active := True\<rparr>)
                    else s\<lparr>timer_active := True\<rparr>)\<lparr>stacked := test_widget\<rparr>))"
proof -
  let ?u = "s\<lparr>timer_active := True\<rparr>"
  have "pre_ok (test_state ?u) (questions ?u)" using assms by simp
  from show_question_ok [OF this]
  show ?thesis by (simp add: enter_test_widget_def current_index_def)
qed

lemma sound_enter_test_widget:
  assumes "pre_ok (test_state s) (questions s)"
  shows "\<exists>t. enter_test_widget s = Inr t \<and> sound t"
proof (cases "questions s = [] \<or> int (length (questions s)) \<le> current_index s")
  case True
  let ?m = "(back_to_menu (s\<lparr>timer_active := True\<rparr>))\<lparr>stacked := test_widget\<rparr>"
  have "core_ok (test_state ?m) (questions ?m)" and "widget_ok ?m"
    by (simp_all add: back_to_menu_def save_progress_def core_ok_def pre_ok_def widget_ok_def
          fresh_test_state_def)
  then have "sound (save_progress False ?m)" by (rule sound_save_progress)
  then show ?thesis using True by (simp add: enter_test_widget_ok [OF assms])
next
  case False
  let ?u = "s\<lparr>timer_active := True, stacked := test_widget\<rparr>"
  have "core_ok (test_state ?u) (questions ?u)"
    using assms False by (simp add: core_ok_def current_index_def)
  moreover have "widget_ok ?u" using False by (simp add: widget_ok_def)
  ultimately have "sound (save_progress False ?u)" by (rule sound_save_progress)
  then show ?thesis using False by (simp add: enter_test_widget_ok [OF assms])
qed

lemma sound_start_test_section:
  assumes "0 \<le> rw_index (test_state s)" and "0 \<le> math_index (test_state s)"
    and "list_all is_valid (questions s)" and "file_ok (progress_file s)"
  shows "\<exists>t. start_test_section cfg rs now sec resume s = Inr t \<and> sound t"
proof -
  let ?s1 = "s\<lparr>test_state :=
                  (test_state s)\<lparr>current_section := Some sec, test_phase := Some (Running sec)\<rparr>\<rparr>"
  let ?fresh = "load_questions cfg sec False rs"
  have fv: "list_all is_valid ?fresh" by (rule load_questions_valid)
  have enter: "\<exists>t. enter_test_widget u = Inr t \<and> sound t"
    if "0 \<le> rw_index (test_state u)" "0 \<le> math_index (test_state u)"
       "list_all is_valid (questions u)" "current_section (test_state u) \<noteq> None" for u
    using that by (intro sound_enter_test_widget) (simp add: pre_ok_def)
  show ?thesis
  proof (cases resume)
    case False
    show ?thesis
    proof (cases "?fresh = []")
      case True
      then show ?thesis
        using \<open>\<not> resume\<close> assms
        by (simp add: start_test_section_def Let_def sound_def core_ok_def pre_ok_def
              widget_ok_def)
    next
      case ne: False
      let ?u = "?s1\<lparr>test_state := (test_state ?s1)\<lparr>start_time := Some now, elapsed := 0\<rparr>,
                    questions := ?fresh\<rparr>
                  \<lparr>remaining_seconds := default_time_limits cfg sec * 60,
                   test_state := (if sec = RW
                     then (test_state (?s1\<lparr>test_state := (test_state ?s1)\<lparr>start_time := Some now, elapsed := 0\<rparr>,
                    questions := ?fresh\<rparr>))\<lparr>rw_index := 0\<rparr>
                     else (test_state (?s1\<lparr>test_state := (test_state ?s1)\<lparr>start_time := Some now, elapsed := 0\<rparr>,
                    questions := ?fresh\<rparr>))\<lparr>math_index := 0\<rparr>)\<rparr>"
      have "\<exists>t. enter_test_widget ?u = Inr t \<and> sound t"
        using assms fv by (intro enter) auto
      then show ?thesis
        using \<open>\<not> resume\<close> ne by (simp add: start_test_section_def Let_def)
    qed
  next
    case True
    show ?thesis
    proof (cases "questions s = []")
      case q: True
      show ?thesis
      proof (cases "?fresh = []")
        case True
        then show ?thesis
          using \<open>resume\<close> q assms
          by (simp add: start_test_section_def Let_def sound_def core_ok_def pre_ok_def
                widget_ok_def)
      next
        case ne: False
        let ?u = "?s1\<lparr>questions := ?fresh\<rparr>\<lparr>remaining_seconds := default_time_limits cfg sec * 60\<rparr>"
        have "\<exists>t. enter_test_widget ?u = Inr t \<and> sound t"
          using assms fv by (intro enter) auto
        then show ?thesis
          using \<open>resume\<close> q ne by (simp add: start_test_section_def Let_def)
      qed
    next
      case False
      have "\<exists>t. enter_test_widget ?s1 = Inr t \<and> sound t"
        using assms by (intro enter) auto
      then show ?thesis
        using \<open>resume\<close> False by (simp add: start_test_section_def Let_def)
    qed
  qed
qed

lemma sound_weak:
  assumes "sound s"
  shows "0 \<le> rw_index (test_state s)" "0 \<le> math_index (test_state s)"
    "list_all is_valid (questions s)" "file_ok (progress_file s)"
  using assms by (simp_all add: sound_def core_ok_def pre_ok_def)

lemma sound_start_full_test:
  "\<exists>t. start_full_test cfg rs now s = Inr t \<and> sound t"
  unfolding start_full_test_def
  by (rule sound_start_test_section) (simp_all add: save_progress_def file_ok_def)

lemma sound_start_next_section:
  assumes "sound s"
  shows "\<exists>t. start_next_section cfg rs now s = Inr t \<and> sound t"
  unfolding start_next_section_def
  using sound_weak [OF assms] by (intro sound_start_test_section) simp_all

lemma sound_start_break:
  assumes "core_ok (test_state s) (questions s)"
  shows "sound (start_break cfg s)"
  unfolding start_break_def
  using assms
  by (intro sound_save_progress)
     (auto simp: core_ok_def pre_ok_def widget_ok_def split: if_splits)

lemma sound_show_results:
  assumes "core_ok (test_state s) (questions s)"
  shows "sound (show_results cfg today s)"
  using assms
  by (auto simp: sound_def show_results_def update_analytics_def save_progress_def Let_def
        file_ok_def widget_ok_def)

lemma sound_submit_section:
  assumes "sound s"
  shows "sound (submit_section cfg today reply s)"
proof -
  have c: "core_ok (test_state (s\<lparr>timer_active := False\<rparr>)) (questions (s\<lparr>timer_active := False\<rparr>))"
    using assms by (simp add: sound_def)
  have "sound (s\<lparr>timer_active := False, timer_active := True\<rparr>)"
    using assms by (simp add: sound_def widget_ok_def)
  then show ?thesis
    using sound_start_break [OF c] sound_show_results [OF c]
    by (simp add: submit_section_def Let_def)
qed

lemma sound_update_timer:
  assumes "sound s"
  shows "sound (update_timer cfg today reply s)"
proof (cases "remaining_seconds s \<le> 0")
  case True
  have "sound (s\<lparr>timer_active := False\<rparr>)" using assms by (simp add: sound_def widget_ok_def)
  then show ?thesis using True by (simp add: update_timer_def sound_submit_section)
next
  case False
  let ?u = "s\<lparr>remaining_seconds := remaining_seconds s - 1\<rparr>"
  have u: "sound ?u" using assms by (simp add: sound_def widget_ok_def)
  then have "sound (save_progress False ?u)"
    by (intro sound_save_progress) (simp_all add: sound_def)
  then show ?thesis using False u by (simp add: update_timer_def Let_def)
qed

lemma sound_save_answer:
  assumes "sound s" and "save_answer checked s = Inr t"
  shows "sound t"
proof (cases checked)
  case None
  then show ?thesis using assms by (simp add: save_answer_def)
next
  case (Some b)
  then obtain sec where c: "current_section (test_state s) = Some sec"
    using assms(2) by (auto simp: save_answer_def Let_def split: option.splits)
  let ?ts = "test_state s"
  let ?u = "s\<lparr>test_state := ?ts\<lparr>user_answers :=
               (user_answers ?ts)(sec := AList.update (IntKey (current_index s))
                  [char_of (of_char (CHR ''A'') + b)] (user_answers ?ts sec))\<rparr>\<rparr>"
  have t: "t = save_progress False ?u"
    using assms(2) Some c by (simp add: save_answer_def Let_def)
  have "core_ok (test_state ?u) (questions ?u)" and "widget_ok ?u"
    using assms(1)
    by (auto simp: sound_def core_ok_def pre_ok_def widget_ok_def split: if_splits)
  then show ?thesis unfolding t by (rule sound_save_progress)
qed

lemma sound_set_current_index:
  assumes "sound s" and "0 \<le> v"
    and "questions s = [] \<or> v < int (length (questions s))"
  shows "sound (set_current_index v s)"
proof -
  let ?u = "if current_section (test_state s) = Some RW
        then s\<lparr>test_state := (test_state s)\<lparr>rw_index := v\<rparr>\<rparr>
        else s\<lparr>test_state := (test_state s)\<lparr>math_index := v\<rparr>\<rparr>"
  have "core_ok (test_state ?u) (questions ?u)" and "widget_ok ?u"
    using assms by (auto simp: sound_def core_ok_def pre_ok_def widget_ok_def)
  then show ?thesis unfolding set_current_index_def by (rule sound_save_progress)
qed

lemma sound_bounds:
  assumes "sound s" and "questions s \<noteq> []"
  shows "0 \<le> current_index s" "current_index s < int (length (questions s))"
  using assms by (auto simp: sound_def core_ok_def pre_ok_def current_index_def)

lemma sound_index_nonneg: "sound s \<Longrightarrow> 0 \<le> current_index s"
  by (simp add: sound_def core_ok_def pre_ok_def current_index_def)

lemma sound_prev_question:
  assumes "sound s"
  shows "\<exists>t. prev_question s = Inr t \<and> sound t"
proof (cases "0 < current_index s")
  case True
  have "questions s = [] \<or> current_index s - 1 < int (length (questions s))"
  proof (cases "questions s = []")
    case False
    from sound_bounds(2) [OF assms False] show ?thesis by simp
  qed simp
  then have "sound (set_current_index (current_index s - 1) s)"
    using True by (intro sound_set_current_index [OF assms]) simp_all
  then show ?thesis using True by (simp add: prev_question_def sound_show_question)
next
  case False
  then show ?thesis using assms by (simp add: prev_question_def)
qed

lemma sound_next_question:
  assumes "sound s"
  shows "\<exists>t. next_question s = Inr t \<and> sound t"
proof (cases "current_index s < int (length (questions s)) - 1")
  case True
  have "0 \<le> current_index s + 1" using sound_index_nonneg [OF assms] by simp
  moreover have "questions s = [] \<or> current_index s + 1 < int (length (questions s))"
    using True by simp
  ultimately have "sound (set_current_index (current_index s + 1) s)"
    by (rule sound_set_current_index [OF assms])
  then show ?thesis using True by (simp add: next_question_def sound_show_question)
next
  case False
  then show ?thesis using assms by (simp add: next_question_def)
qed

lemma sound_init:
  assumes "file_ok pf"
  shows "\<exists>t. init cfg rs now reply an pf = Inr t \<and> sound t"
proof -
  let ?s1 = "load_progress reply (initial_app an pf)"
  have core: "core_ok (test_state ?s1) (questions ?s1)" and fok: "file_ok (progress_file ?s1)"
    using assms
    by (auto simp: load_progress_def initial_app_def save_progress_def core_ok_fresh file_ok_def
          ok_dump_load split: progress_file.splits option.splits)
  have w: "0 \<le> rw_index (test_state ?s1)" "0 \<le> math_index (test_state ?s1)"
    "list_all is_valid (questions ?s1)"
    using core by (simp_all add: core_ok_def pre_ok_def)
  show ?thesis
  proof (cases "test_phase (test_state ?s1) = Some BREAK")
    case True
    then show ?thesis using sound_start_break [OF core] by (simp add: init_def Let_def)
  next
    case False
    show ?thesis
    proof (cases "current_section (test_state ?s1)")
      case None
      have "sound (?s1\<lparr>stacked := menu_widget,
                         test_state := (test_state ?s1)\<lparr>test_phase := Some MENU\<rparr>\<rparr>)"
        using core fok
        by (auto simp: sound_def core_ok_def pre_ok_def widget_ok_def split: if_splits)
      then show ?thesis using False None by (simp add: init_def Let_def)
    next
      case (Some sec)
      from sound_start_test_section [OF w fok]
      show ?thesis using False Some by (simp add: init_def Let_def)
    qed
  qed
qed

lemma reachable_sound: "reachable s \<Longrightarrow> sound s"
proof (induction rule: reachable.induct)
  case (r_init cfg rs now reply an s')
  then show ?case using sound_init [of NoFile cfg rs now reply an] by (simp add: file_ok_def)
next
  case (r_restart s cfg rs now reply an s')
  then have "file_ok (progress_file s)" by (simp add: sound_def)
  from sound_init [OF this, of cfg rs now reply an] r_restart show ?case by simp
next
  case (r_start_full_test s cfg rs now s')
  then show ?case using sound_start_full_test [of cfg rs now s] by simp
next
  case (r_save_answer s checked s')
  then show ?case by (simp add: sound_save_answer)
next
  case (r_prev_question s s')
  then show ?case using sound_prev_question [of s] by simp
next
  case (r_next_question s s')
  then show ?case using sound_next_question [of s] by simp
next
  case (r_submit_section s cfg today reply)
  then show ?case by (simp add: sound_submit_section)
next
  case (r_update_timer s cfg today reply)
  then show ?case by (simp add: sound_update_timer)
next
  case (r_start_next_section s cfg rs now s')
  then show ?case using sound_start_next_section [of s cfg rs now] by simp
next
  case (r_back_to_menu s)
  show ?case by (rule sound_back_to_menu)
qed

section \<open>Navigation\<close>

lemma current_index_set_current_index: "current_index (set_current_index v s) = v"
  by (simp add: current_index_def set_current_index_def save_progress_def)

lemma questions_set_current_index: "questions (set_current_index v s) = questions s"
  by (simp add: set_current_index_def save_progress_def)

lemma show_question_in_bounds:
  assumes "sound s" and "questions s \<noteq> []"
  shows "show_question s = Inr s"
proof -
  have "pre_ok (test_state s) (questions s)" using assms(1) by (simp add: sound_def core_ok_def)
  from show_question_ok [OF this] sound_bounds(2) [OF assms] assms(2)
  show ?thesis by simp
qed

lemma prev_question_eq:
  assumes "sound s" and "questions s \<noteq> []"
  shows "prev_question s =
           Inr (if 0 < current_index s then set_current_index (current_index s - 1) s else s)"
proof (cases "0 < current_index s")
  case True
  let ?t = "set_current_index (current_index s - 1) s"
  have "questions s = [] \<or> current_index s - 1 < int (length (questions s))"
    using sound_bounds(2) [OF assms] by simp
  then have "sound ?t" using True by (intro sound_set_current_index [OF assms(1)]) simp_all
  moreover have "questions ?t \<noteq> []" using assms(2) by (simp add: questions_set_current_index)
  ultimately have "show_question ?t = Inr ?t" by (rule show_question_in_bounds)
  then show ?thesis using True by (simp add: prev_question_def)
next
  case False
  then show ?thesis by (simp add: prev_question_def)
qed

lemma next_question_eq:
  assumes "sound s" and "questions s \<noteq> []"
  shows "next_question s =
           Inr (if current_index s < int (length (questions s)) - 1
                then set_current_index (current_index s + 1) s else s)"
proof (cases "current_index s < int (length (questions s)) - 1")
  case True
  let ?t = "set_current_index (current_index s + 1) s"
  have "0 \<le> current_index s + 1" using sound_index_nonneg [OF assms(1)] by simp
  moreover have "questions s = [] \<or> current_index s + 1 < int (length (questions s))"
    using True by simp
  ultimately have "sound ?t" by (rule sound_set_current_index [OF assms(1)])
  moreover have "questions ?t \<noteq> []" using assms(2) by (simp add: questions_set_current_index)
  ultimately have "show_question ?t = Inr ?t" by (rule show_question_in_bounds)
  then show ?thesis using True by (simp add: next_question_def)
next
  case False
  then show ?thesis by (simp add: next_question_def)
qed

lemma start_full_test_fresh:
  assumes "load_questions cfg RW False rs \<noteq> []"
  shows "\<exists>t. start_full_test cfg rs now s = Inr t
           \<and> questions t = load_questions cfg RW False rs
           \<and> current_index t = 0
           \<and> current_section (test_state t) = Some RW
           \<and> test_phase (test_state t) = Some (Running RW)
           \<and> user_answers (test_state t) = (\<lambda>sec. [])
           \<and> remaining_seconds t = default_time_limits cfg RW * 60
           \<and> timer_active t \<and> stacked t = test_widget"
  using assms
  by (simp add: start_full_test_def start_test_section_def Let_def enter_test_widget_ok
        pre_ok_def load_questions_valid current_index_def save_progress_def)

text \<open>
  Claim C5. In every state the program reaches, a resumed session included, that has an
  active question set, the current index is within \<open>[0, len(questions) - 1]\<close>, and
  \<^verbatim>\<open>prev_question\<close> and \<^verbatim>\<open>next_question\<close> return: at index 0 and at the last index
  respectively they leave the whole state unchanged, otherwise the index moves by exactly
  one; the question set is kept, and the state after the move is reachable and has its
  index within the same bounds.
\<close>

theorem C5_navigate_stays_in_bounds:
  assumes "reachable s" and "questions s \<noteq> []"
  shows "0 \<le> current_index s \<and> current_index s < int (length (questions s))
       \<and> (\<exists>p n. prev_question s = Inr p \<and> next_question s = Inr n
            \<and> (current_index s = 0 \<longrightarrow> p = s)
            \<and> (current_index s = int (length (questions s)) - 1 \<longrightarrow> n = s)
            \<and> (0 < current_index s \<longrightarrow> current_index p = current_index s - 1)
            \<and> (current_index s < int (length (questions s)) - 1
                 \<longrightarrow> current_index n = current_index s + 1)
            \<and> questions p = questions s \<and> questions n = questions s
            \<and> 0 \<le> current_index p \<and> current_index p < int (length (questions p))
            \<and> 0 \<le> current_index n \<and> current_index n < int (length (questions n))
            \<and> reachable p \<and> reachable n)"
proof -
  have snd: "sound s" using assms(1) by (rule reachable_sound)
  note b = sound_bounds [OF snd assms(2)]
  let ?p = "if 0 < current_index s then set_current_index (current_index s - 1) s else s"
  let ?n = "if current_index s < int (length (questions s)) - 1
            then set_current_index (current_index s + 1) s else s"
  have p: "prev_question s = Inr ?p" by (rule prev_question_eq [OF snd assms(2)])
  have n: "next_question s = Inr ?n" by (rule next_question_eq [OF snd assms(2)])
  have rp: "reachable ?p" using reachable.r_prev_question [OF assms(1) p] .
  have rn: "reachable ?n" using reachable.r_next_question [OF assms(1) n] .
  have "(current_index s = 0 \<longrightarrow> ?p = s)
      \<and> (current_index s = int (length (questions s)) - 1 \<longrightarrow> ?n = s)
      \<and> (0 < current_index s \<longrightarrow> current_index ?p = current_index s - 1)
      \<and> (current_index s < int (length (questions s)) - 1
           \<longrightarrow> current_index ?n = current_index s + 1)
      \<and> questions ?p = questions s \<and> questions ?n = questions s
      \<and> 0 \<le> current_index ?p \<and> current_index ?p < int (length (questions ?p))
      \<and> 0 \<le> current_index ?n \<and> current_index ?n < int (length (questions ?n))"
    using b by (auto simp: current_index_set_current_index questions_set_current_index)
  then show ?thesis using b p n rp rn by blast
qed


lemma progress_file_set_current_index:
  "progress_file (set_current_index v s) =
     SavedFile \<lparr>snap_test_state = Some (dump_state (test_state (set_current_index v s))),
                snap_questions = Some (questions (set_current_index v s)),
                snap_remaining_seconds = Some (remaining_seconds (set_current_index v s))\<rparr>"
  by (simp add: set_current_index_def save_progress_def)

lemma test_phase_set_current_index:
  "test_phase (test_state (set_current_index v s)) = test_phase (test_state s)"
  by (simp add: set_current_index_def save_progress_def)

text \<open>A new process that resumes on the progress file written in a sound state with an
  active question set, outside the break, shows the test widget on the same question
  set at the same index.\<close>

lemma resume_on_own_file:
  assumes "sound s" and "questions s \<noteq> []"
    and "test_phase (test_state s) \<noteq> Some BREAK"
    and "progress_file s =
           SavedFile \<lparr>snap_test_state = Some (dump_state (test_state s)),
                      snap_questions = Some (questions s),
                      snap_remaining_seconds = Some (remaining_seconds s)\<rparr>"
  shows "\<exists>r. init cfg rs now True an (progress_file s) = Inr r
           \<and> questions r = questions s \<and> current_index r = current_index s
           \<and> remaining_seconds r = remaining_seconds s
           \<and> stacked r = test_widget \<and> timer_active r"
proof -
  have pre: "pre_ok (test_state s) (questions s)"
    and lt: "current_index s < int (length (questions s))"
    using assms(1,2) by (auto simp: sound_def core_ok_def current_index_def)
  then obtain sec where sec: "current_section (test_state s) = Some sec"
    using assms(2) by (auto simp: pre_ok_def)
  let ?s1 = "load_progress True (initial_app an (progress_file s))"
  let ?s2 = "?s1\<lparr>test_state :=
                 (test_state ?s1)\<lparr>current_section := Some sec, test_phase := Some (Running sec)\<rparr>\<rparr>"
  let ?r = "save_progress False (?s2\<lparr>timer_active := True, stacked := test_widget\<rparr>)"
  have s1: "test_state ?s1 = load_state (dump_state (test_state s))"
    "questions ?s1 = questions s" "remaining_seconds ?s1 = remaining_seconds s"
    unfolding assms(4) by (simp_all add: load_progress_def initial_app_def)
  have ts: "test_phase (test_state ?s1) \<noteq> Some BREAK"
    "current_section (test_state ?s1) = Some sec"
    using assms(3) sec by (simp_all add: s1 load_state_def dump_state_def)
  have i: "init cfg rs now True an (progress_file s) = enter_test_widget ?s2"
    using ts assms(2) by (simp add: init_def Let_def start_test_section_def s1)
  have idx: "current_index ?s2 = current_index s"
    using sec by (simp add: current_index_def s1 load_state_def dump_state_def)
  have "pre_ok (test_state ?s2) (questions ?s2)"
    using pre by (simp add: s1 pre_ok_def load_state_def dump_state_def)
  from enter_test_widget_ok [OF this]
  have ew: "enter_test_widget ?s2 = Inr ?r"
    using assms(2) lt idx by (simp add: s1)
  have "current_index ?r = current_index ?s2"
    by (simp add: save_progress_def current_index_def)
  then have f: "current_index ?r = current_index s" using idx by simp
  have g: "questions ?r = questions s" "remaining_seconds ?r = remaining_seconds s"
    "stacked ?r = test_widget" "timer_active ?r"
    by (simp_all add: save_progress_def s1)
  have "init cfg rs now True an (progress_file s) = Inr ?r" using i ew by (rule trans)
  then show ?thesis using f g by blast
qed

theorem C5_navigate_witness:
  "reachable ex_started \<and> questions ex_started \<noteq> []
   \<and> length (questions ex_started) = 5 \<and> current_index ex_started = 0
   \<and> prev_question ex_started = Inr ex_started
   \<and> next_question ex_started = Inr ex_next \<and> current_index ex_next = 1
   \<and> reachable ex_resumed \<and> questions ex_resumed \<noteq> []
   \<and> length (questions ex_resumed) = 5 \<and> current_index ex_resumed = 1
   \<and> (\<exists>p n. prev_question ex_resumed = Inr p \<and> next_question ex_resumed = Inr n
         \<and> current_index p = 0 \<and> current_index n = 2
         \<and> questions p = questions ex_resumed \<and> questions n = questions ex_resumed
         \<and> reachable p \<and> reachable n)"
proof -
  let ?fresh = "load_questions ex_config RW False [3, 2, 4, 2, 5]"
  have v: "filter is_valid ex_bank = ex_valid"
    by (simp add: ex_bank_def ex_valid_def is_valid_def ex_question_def ex_malformed_def)
  have l5: "length ex_valid = 5" by (simp add: ex_valid_def)
  have k: "min (length ex_valid) (nat (total_questions ex_config RW)) = 5"
    by (simp add: l5 ex_config_def)
  have bk: "question_banks ex_config RW = BankData (Some ex_bank)"
    and nn: "0 \<le> total_questions ex_config RW"
    by (simp_all add: ex_config_def)
  have vne: "filter is_valid ex_bank \<noteq> []" using v l5 by auto
  have f: "?fresh = sample_pool ex_valid 5 [3, 2, 4, 2, 5]"
    using load_questions_sampled [OF bk vne nn, of "[3, 2, 4, 2, 5]"] by (simp only: v k)
  have "5 \<le> length ex_valid" by (simp add: l5)
  from sample_pool_props [OF this, of "[3, 2, 4, 2, 5]"]
  have len: "length ?fresh = 5" unfolding f by blast
  then have ne: "?fresh \<noteq> []" by auto
  have "init ex_config [] 0 False default_analytics NoFile = Inr ex_menu"
    by (simp add: init_def load_progress_def initial_app_def ex_menu_def fresh_test_state_def)
  then have rm: "reachable ex_menu" by (rule reachable.r_init)
  from start_full_test_fresh [OF ne, of 0 ex_menu]
  obtain t where t: "start_full_test ex_config [3, 2, 4, 2, 5] 0 ex_menu = Inr t"
    and tq: "questions t = ?fresh" and tc: "current_index t = 0"
    and tp: "test_phase (test_state t) = Some (Running RW)"
    by blast
  have e0: "ex_started = t" by (simp add: ex_started_def t)
  have r0: "reachable ex_started"
    unfolding e0 using rm t by (rule reachable.r_start_full_test)
  have q0: "questions ex_started = ?fresh" and c0: "current_index ex_started = 0"
    and ph0: "test_phase (test_state ex_started) = Some (Running RW)"
    using tq tc tp by (simp_all add: e0)
  have l0: "length (questions ex_started) = 5" and ne0: "questions ex_started \<noteq> []"
    using q0 len ne by simp_all
  from C5_navigate_stays_in_bounds [OF r0 ne0]
  obtain p0 n0 where p0: "prev_question ex_started = Inr p0"
    and n0: "next_question ex_started = Inr n0"
    and p0s: "current_index ex_started = 0 \<longrightarrow> p0 = ex_started"
    and n0c: "current_index ex_started < int (length (questions ex_started)) - 1
                \<longrightarrow> current_index n0 = current_index ex_started + 1"
    and n0q: "questions n0 = questions ex_started" and n0r: "reachable n0"
    by blast
  have pe: "prev_question ex_started = Inr ex_started" using p0 p0s c0 by simp
  have e1: "ex_next = n0" by (simp add: ex_next_def n0)
  have ne': "next_question ex_started = Inr ex_next" using n0 e1 by simp
  have c1: "current_index ex_next = 1" using n0c c0 l0 by (simp add: e1)
  have q1: "questions ex_next = questions ex_started" using n0q by (simp add: e1)
  have r1: "reachable ex_next" using n0r by (simp add: e1)
  have s0: "sound ex_started" using r0 by (rule reachable_sound)
  have s1: "sound ex_next" using r1 by (rule reachable_sound)
  have ne1: "questions ex_next \<noteq> []" using q1 ne0 by simp
  have "Inr ex_next = Inr (set_current_index 1 ex_started)"
    using next_question_eq [OF s0 ne0] ne' c0 l0 by simp
  then have sc: "ex_next = set_current_index 1 ex_started" by simp
  have ph1: "test_phase (test_state ex_next) \<noteq> Some BREAK"
    unfolding sc by (simp add: test_phase_set_current_index ph0)
  have pf1: "progress_file ex_next =
           SavedFile \<lparr>snap_test_state = Some (dump_state (test_state ex_next)),
                      snap_questions = Some (questions ex_next),
                      snap_remaining_seconds = Some (remaining_seconds ex_next)\<rparr>"
    unfolding sc by (rule progress_file_set_current_index)
  from resume_on_own_file [OF s1 ne1 ph1 pf1, of ex_config "[]" 0 default_analytics]
  obtain r where r: "init ex_config [] 0 True default_analytics (progress_file ex_next) = Inr r"
    and rq: "questions r = questions ex_next" and rc: "current_index r = current_index ex_next"
    by blast
  have e2: "ex_resumed = r" by (simp add: ex_resumed_def r)
  have rr: "reachable ex_resumed"
    unfolding e2 using r1 r by (rule reachable.r_restart)
  have q2: "questions ex_resumed = questions ex_started" using rq q1 by (simp add: e2)
  have c2: "current_index ex_resumed = 1" using rc c1 by (simp add: e2)
  have l2: "length (questions ex_resumed) = 5" and ne2: "questions ex_resumed \<noteq> []"
    using q2 l0 ne0 by simp_all
  from C5_navigate_stays_in_bounds [OF rr ne2]
  obtain p n where "prev_question ex_resumed = Inr p" "next_question ex_resumed = Inr n"
    "0 < current_index ex_resumed \<longrightarrow> current_index p = current_index ex_resumed - 1"
    "current_index ex_resumed < int (length (questions ex_resumed)) - 1
       \<longrightarrow> current_index n = current_index ex_resumed + 1"
    "questions p = questions ex_resumed" "questions n = questions ex_resumed"
    "reachable p" "reachable n"
    by blast
  then have "\<exists>p n. prev_question ex_resumed = Inr p \<and> next_question ex_resumed = Inr n
         \<and> current_index p = 0 \<and> current_index n = 2
         \<and> questions p = questions ex_resumed \<and> questions n = questions ex_resumed
         \<and> reachable p \<and> reachable n"
    using c2 l2 by auto
  then show ?thesis using r0 ne0 l0 c0 pe ne' c1 rr ne2 l2 c2 by blast
qed

section \<open>Answer capture\<close>

lemma chr_cases:
  "char_of (65::nat) = CHR ''A''" "char_of (66::nat) = CHR ''B''"
  "char_of (67::nat) = CHR ''C''" "char_of (68::nat) = CHR ''D''"
  by code_simp+

lemma answer_letter:
  assumes "b \<in> set choices_buttons"
  shows "[char_of (of_char (CHR ''A'') + b)] = [''A'', ''B'', ''C'', ''D''] ! b"
proof -
  have "b < 4" using assms by (simp add: choices_buttons_def)
  then consider "b = 0" | "b = 1" | "b = 2" | "b = 3" by arith
  then show ?thesis by cases (simp_all add: chr_cases)
qed

lemma letter_in_codes:
  assumes "b \<in> set choices_buttons"
  shows "[''A'', ''B'', ''C'', ''D''] ! b \<in> {''A'', ''B'', ''C'', ''D''}"
proof -
  have "b < 4" using assms by (simp add: choices_buttons_def)
  then consider "b = 0" | "b = 1" | "b = 2" | "b = 3" by arith
  then show ?thesis by cases simp_all
qed

lemma kept_refl: "answers_kept_or_cleared s s"
  by (simp add: answers_kept_or_cleared_def)

lemma kept_trans:
  "answers_kept_or_cleared s t \<Longrightarrow> answers_kept_or_cleared t u \<Longrightarrow> answers_kept_or_cleared s u"
  by (auto simp: answers_kept_or_cleared_def)

lemma kept_same: "user_answers (test_state t) = user_answers (test_state s) \<Longrightarrow> answers_kept_or_cleared s t"
  by (simp add: answers_kept_or_cleared_def)

lemma answers_save_progress: "user_answers (test_state (save_progress d s)) = user_answers (test_state s)"
  by (simp add: save_progress_def)

lemma answers_back_to_menu: "user_answers (test_state (back_to_menu s)) = (\<lambda>sec. [])"
  by (simp add: back_to_menu_def save_progress_def fresh_test_state_def)

lemma show_question_cases:
  "show_question s = Inr t \<Longrightarrow> t = s \<or> t = back_to_menu s"
  by (auto simp: show_question_def Let_def split: if_splits option.splits)

lemma kept_show_question: "show_question s = Inr t \<Longrightarrow> answers_kept_or_cleared s t"
  using show_question_cases [of s t]
  by (auto simp: answers_kept_or_cleared_def answers_back_to_menu)

lemma answers_set_current_index:
  "user_answers (test_state (set_current_index v s)) = user_answers (test_state s)"
  by (simp add: set_current_index_def save_progress_def)

lemma kept_prev_question: "prev_question s = Inr t \<Longrightarrow> answers_kept_or_cleared s t"
  unfolding prev_question_def Let_def
  by (auto intro: kept_refl kept_trans [OF kept_same [OF answers_set_current_index] kept_show_question]
           split: if_splits)

lemma kept_next_question: "next_question s = Inr t \<Longrightarrow> answers_kept_or_cleared s t"
  unfolding next_question_def Let_def
  by (auto intro: kept_refl kept_trans [OF kept_same [OF answers_set_current_index] kept_show_question]
           split: if_splits)

lemma answers_start_break:
  "user_answers (test_state (start_break cfg s)) = user_answers (test_state s)"
  by (simp add: start_break_def save_progress_def)

lemma answers_show_results:
  "user_answers (test_state (show_results cfg today s)) = user_answers (test_state s)"
  by (simp add: show_results_def update_analytics_def save_progress_def Let_def)

lemma answers_submit_section:
  "user_answers (test_state (submit_section cfg today reply s)) = user_answers (test_state s)"
  by (simp add: submit_section_def Let_def answers_start_break answers_show_results)

lemma answers_update_timer:
  "user_answers (test_state (update_timer cfg today reply s)) = user_answers (test_state s)"
  by (simp add: update_timer_def answers_submit_section save_progress_def Let_def)

lemma enter_test_widget_cases:
  assumes "enter_test_widget s = Inr t"
  shows "t = save_progress False (s\<lparr>timer_active := True, stacked := test_widget\<rparr>)
       \<or> t = save_progress False ((back_to_menu (s\<lparr>timer_active := True\<rparr>))\<lparr>stacked := test_widget\<rparr>)"
proof -
  from assms obtain u where u: "show_question (s\<lparr>timer_active := True\<rparr>) = Inr u"
    and t: "t = save_progress False (u\<lparr>stacked := test_widget\<rparr>)"
    by (auto simp: enter_test_widget_def split: sum.splits)
  from show_question_cases [OF u] t show ?thesis by auto
qed

lemma kept_enter_test_widget:
  "enter_test_widget s = Inr t \<Longrightarrow> answers_kept_or_cleared s t"
  using enter_test_widget_cases [of s t]
  by (auto simp: answers_kept_or_cleared_def save_progress_def back_to_menu_def
        fresh_test_state_def)

lemma kept_start_test_section:
  assumes "start_test_section cfg rs now sec resume s = Inr t"
  shows "answers_kept_or_cleared s t"
proof -
  have k: "user_answers (test_state u) = user_answers (test_state s) \<Longrightarrow>
           enter_test_widget u = Inr t \<Longrightarrow> answers_kept_or_cleared s t" for u
    using kept_enter_test_widget [of u t] by (simp add: answers_kept_or_cleared_def)
  show ?thesis
    using assms unfolding start_test_section_def Let_def
    by (auto split: if_splits intro!: kept_same elim!: k [rotated])
qed

lemma kept_start_next_section:
  assumes "start_next_section cfg rs now s = Inr t"
  shows "answers_kept_or_cleared s t"
proof -
  let ?u = "s\<lparr>timer_active := False,
          test_state := (test_state s)\<lparr>test_phase := Some (Running MATH)\<rparr>\<rparr>"
  have "answers_kept_or_cleared ?u t"
    using assms unfolding start_next_section_def by (rule kept_start_test_section)
  then show ?thesis by (simp add: answers_kept_or_cleared_def)
qed

lemma cleared_start_full_test:
  assumes "start_full_test cfg rs now s = Inr t"
  shows "user_answers (test_state t) = (\<lambda>sec. [])"
proof -
  let ?u = "save_progress True
          (s\<lparr>test_state :=
               \<lparr>current_section = Some RW, current_module = Some ''RW1'',
                rw_index = 0, math_index = 0, user_answers = (\<lambda>sec. []),
                start_time = None, elapsed = 0, test_phase = Some (Running RW)\<rparr>,
             questions := []\<rparr>)"
  have "answers_kept_or_cleared ?u t"
    using assms unfolding start_full_test_def by (rule kept_start_test_section)
  then show ?thesis by (simp add: answers_kept_or_cleared_def save_progress_def)
qed


text \<open>Every value of the answer dicts is a choice letter, in every state the program
  reaches and in the progress file it leaves.\<close>

lemma letters_only_update:
  "letters_only d \<Longrightarrow> v \<in> {''A'', ''B'', ''C'', ''D''} \<Longrightarrow> letters_only (AList.update k v d)"
  unfolding letters_only_def by (induction d) auto

lemma letters_only_dump: "letters_only (dump_dict d) = letters_only d"
  by (simp add: letters_only_def dump_dict_def list_all_iff split_def)

lemma letters_only_foldl:
  "letters_only acc \<Longrightarrow> letters_only kvs \<Longrightarrow>
   letters_only (foldl (\<lambda>d (k, v). AList.update (StrKey k) v d) acc kvs)"
proof (induction kvs arbitrary: acc)
  case Nil
  then show ?case by simp
next
  case (Cons kv kvs)
  have "snd kv \<in> {''A'', ''B'', ''C'', ''D''}" and r: "letters_only kvs"
    using Cons.prems(2) by (simp_all add: letters_only_def)
  then have "letters_only (AList.update (StrKey (fst kv)) (snd kv) acc)"
    using Cons.prems(1) by (intro letters_only_update)
  from Cons.IH [OF this r] show ?case by (simp add: split_def)
qed

lemma letters_only_load: "letters_only kvs \<Longrightarrow> letters_only (load_dict kvs)"
  unfolding load_dict_def by (rule letters_only_foldl) (simp add: letters_only_def)

lemma ua_ok_dump: "ua_ok (dump_state ts) = ua_ok ts"
  by (simp add: ua_ok_def dump_state_def letters_only_dump)

lemma ua_ok_load: "ua_ok ts \<Longrightarrow> ua_ok (load_state ts)"
  by (simp add: ua_ok_def load_state_def letters_only_load)

lemma ua_ok_fresh: "ua_ok (fresh_test_state p)"
  by (simp add: ua_ok_def fresh_test_state_def letters_only_def)

lemma ua_ok_same: "user_answers ts' = user_answers ts \<Longrightarrow> ua_ok ts \<Longrightarrow> ua_ok ts'"
  by (simp add: ua_ok_def)

lemma answers_ok_save_progress: "ua_ok (test_state s) \<Longrightarrow> answers_ok (save_progress d s)"
  by (simp add: answers_ok_def save_progress_def ua_ok_dump)

lemma answers_ok_back_to_menu: "answers_ok (back_to_menu s)"
  by (simp add: answers_ok_def back_to_menu_def save_progress_def ua_ok_fresh)

lemma answers_ok_show_question:
  "show_question s = Inr t \<Longrightarrow> answers_ok s \<Longrightarrow> answers_ok t"
  using show_question_cases [of s t] by (auto simp: answers_ok_back_to_menu)

lemma answers_ok_enter_test_widget:
  assumes "enter_test_widget s = Inr t" and "ua_ok (test_state s)"
  shows "answers_ok t"
proof -
  let ?a = "s\<lparr>timer_active := True, stacked := test_widget\<rparr>"
  let ?b = "(back_to_menu (s\<lparr>timer_active := True\<rparr>))\<lparr>stacked := test_widget\<rparr>"
  have "ua_ok (test_state ?a)" using assms(2) by simp
  then have a: "answers_ok (save_progress False ?a)" by (rule answers_ok_save_progress)
  have "ua_ok (test_state ?b)" by (simp add: back_to_menu_def save_progress_def ua_ok_fresh)
  then have b: "answers_ok (save_progress False ?b)" by (rule answers_ok_save_progress)
  from enter_test_widget_cases [OF assms(1)] a b show ?thesis by blast
qed

lemma answers_ok_start_test_section:
  assumes "start_test_section cfg rs now sec resume s = Inr t" and "answers_ok s"
  shows "answers_ok t"
proof -
  have k: "answers_ok t"
    if "enter_test_widget u = Inr t" "user_answers (test_state u) = user_answers (test_state s)"
    for u
  proof -
    have "ua_ok (test_state s)" using assms(2) by (simp add: answers_ok_def)
    with that(2) have "ua_ok (test_state u)" by (rule ua_ok_same)
    with that(1) show ?thesis by (rule answers_ok_enter_test_widget)
  qed
  have m: "user_answers (test_state u) = user_answers (test_state s) \<Longrightarrow>
           progress_file u = progress_file s \<Longrightarrow> answers_ok u" for u
    using assms(2) by (auto simp: answers_ok_def intro: ua_ok_same)
  show ?thesis
    using assms(1) unfolding start_test_section_def Let_def
    by (auto split: if_splits elim!: k intro!: m)
qed

lemma answers_ok_start_full_test:
  assumes "start_full_test cfg rs now s = Inr t"
  shows "answers_ok t"
  using assms unfolding start_full_test_def
  by (rule answers_ok_start_test_section)
     (simp add: answers_ok_def save_progress_def ua_ok_def letters_only_def)

lemma answers_ok_start_next_section:
  assumes "start_next_section cfg rs now s = Inr t" and "answers_ok s"
  shows "answers_ok t"
  using assms(1) unfolding start_next_section_def
  by (rule answers_ok_start_test_section) (use assms(2) in \<open>simp add: answers_ok_def ua_ok_def\<close>)

lemma answers_ok_set_current_index: "answers_ok s \<Longrightarrow> answers_ok (set_current_index v s)"
  unfolding set_current_index_def
  by (rule answers_ok_save_progress) (simp add: answers_ok_def ua_ok_def)

lemma answers_ok_prev_question:
  "prev_question s = Inr t \<Longrightarrow> answers_ok s \<Longrightarrow> answers_ok t"
  unfolding prev_question_def Let_def
  by (auto split: if_splits intro: answers_ok_show_question answers_ok_set_current_index)

lemma answers_ok_next_question:
  "next_question s = Inr t \<Longrightarrow> answers_ok s \<Longrightarrow> answers_ok t"
  unfolding next_question_def Let_def
  by (auto split: if_splits intro: answers_ok_show_question answers_ok_set_current_index)

lemma answers_ok_save_answer:
  assumes "checked \<in> insert None (Some ` set choices_buttons)"
    and "save_answer checked s = Inr t" and "answers_ok s"
  shows "answers_ok t"
proof (cases checked)
  case None
  then show ?thesis using assms by (simp add: save_answer_def)
next
  case (Some b)
  then have b: "b \<in> set choices_buttons" using assms(1) by auto
  from assms(2) Some obtain sec where c: "current_section (test_state s) = Some sec"
    by (auto simp: save_answer_def Let_def split: option.splits)
  let ?ts = "test_state s"
  let ?u = "s\<lparr>test_state := ?ts\<lparr>user_answers :=
               (user_answers ?ts)(sec := AList.update (IntKey (current_index s))
                                          ([''A'', ''B'', ''C'', ''D''] ! b)
                                          (user_answers ?ts sec))\<rparr>\<rparr>"
  have t: "t = save_progress False ?u"
    using assms(2) Some c by (simp add: save_answer_def Let_def answer_letter [OF b] del: of_char_Char)
  have "ua_ok ?ts" using assms(3) by (simp add: answers_ok_def)
  then have "ua_ok (test_state ?u)"
    using letter_in_codes [OF b] by (cases sec) (simp_all add: ua_ok_def letters_only_update)
  then show ?thesis unfolding t by (rule answers_ok_save_progress)
qed

lemma answers_ok_start_break: "answers_ok s \<Longrightarrow> answers_ok (start_break cfg s)"
  unfolding start_break_def
  by (rule answers_ok_save_progress) (simp add: answers_ok_def ua_ok_def)

lemma answers_ok_show_results: "answers_ok s \<Longrightarrow> answers_ok (show_results cfg today s)"
  by (simp add: answers_ok_def show_results_def update_analytics_def save_progress_def Let_def
        ua_ok_def)

lemma answers_ok_submit_section:
  "answers_ok s \<Longrightarrow> answers_ok (submit_section cfg today reply s)"
proof -
  assume a: "answers_ok s"
  have "answers_ok (s\<lparr>timer_active := b\<rparr>)" for b using a by (simp add: answers_ok_def)
  then show ?thesis
    by (simp add: submit_section_def Let_def answers_ok_start_break answers_ok_show_results)
qed

lemma answers_ok_update_timer:
  assumes "answers_ok s"
  shows "answers_ok (update_timer cfg today reply s)"
proof -
  have "answers_ok (s\<lparr>timer_active := False\<rparr>)" using assms by (simp add: answers_ok_def)
  then have 1: "answers_ok (submit_section cfg today reply (s\<lparr>timer_active := False\<rparr>))"
    by (rule answers_ok_submit_section)
  let ?s1 = "s\<lparr>remaining_seconds := remaining_seconds s - 1\<rparr>"
  have 2: "answers_ok ?s1" using assms by (simp add: answers_ok_def)
  then have "ua_ok (test_state ?s1)" by (simp add: answers_ok_def)
  then have 3: "answers_ok (save_progress False ?s1)" by (rule answers_ok_save_progress)
  show ?thesis using 1 2 3 by (simp add: update_timer_def Let_def)
qed

lemma answers_ok_load_progress: "answers_ok s \<Longrightarrow> answers_ok (load_progress reply s)"
  by (auto simp: answers_ok_def load_progress_def save_progress_def ua_ok_fresh ua_ok_load
           split: progress_file.splits option.splits)

lemma answers_ok_init:
  assumes "answers_ok s" and "init cfg rs now reply an (progress_file s) = Inr t"
  shows "answers_ok t"
proof -
  let ?s1 = "load_progress reply (initial_app an (progress_file s))"
  have "answers_ok (initial_app an (progress_file s))"
    using assms(1) by (simp add: answers_ok_def initial_app_def ua_ok_fresh)
  then have a: "answers_ok ?s1" by (rule answers_ok_load_progress)
  have m: "answers_ok (?s1\<lparr>stacked := menu_widget,
                 test_state := (test_state ?s1)\<lparr>test_phase := Some MENU\<rparr>\<rparr>)"
    using a by (simp add: answers_ok_def ua_ok_def)
  show ?thesis
    using assms(2) a m unfolding init_def Let_def
    by (auto split: if_splits option.splits
             intro: answers_ok_start_break answers_ok_start_test_section)
qed

lemma reachable_letters: "reachable s \<Longrightarrow> answers_ok s"
proof (induction rule: reachable.induct)
  case (r_init cfg rs now reply an s')
  have "answers_ok (initial_app an NoFile)"
    by (simp add: answers_ok_def initial_app_def ua_ok_fresh)
  moreover have "init cfg rs now reply an (progress_file (initial_app an NoFile)) = Inr s'"
    using r_init by (simp add: initial_app_def)
  ultimately show ?case by (rule answers_ok_init)
next
  case (r_restart s cfg rs now reply an s')
  then show ?case by (auto intro: answers_ok_init)
next
  case (r_start_full_test s cfg rs now s')
  then show ?case by (auto intro: answers_ok_start_full_test)
next
  case (r_save_answer s checked s')
  then show ?case by (auto intro: answers_ok_save_answer)
next
  case (r_prev_question s s')
  then show ?case by (auto intro: answers_ok_prev_question)
next
  case (r_next_question s s')
  then show ?case by (auto intro: answers_ok_next_question)
next
  case (r_submit_section s cfg today reply)
  then show ?case by (simp add: answers_ok_submit_section)
next
  case (r_update_timer s cfg today reply)
  then show ?case by (simp add: answers_ok_update_timer)
next
  case (r_start_next_section s cfg rs now s')
  then show ?case by (auto intro: answers_ok_start_next_section)
next
  case (r_back_to_menu s)
  show ?case by (rule answers_ok_back_to_menu)
qed

lemma answers_ok_values:
  assumes "answers_ok s" and "map_of (user_answers (test_state s) sec) k = Some v"
  shows "v \<in> {''A'', ''B'', ''C'', ''D''}"
proof -
  have "letters_only (user_answers (test_state s) sec)"
    using assms(1) by (cases sec) (simp_all add: answers_ok_def ua_ok_def)
  moreover have "(k, v) \<in> set (user_answers (test_state s) sec)"
    using assms(2) by (rule map_of_SomeD)
  ultimately show ?thesis unfolding letters_only_def list_all_iff by fastforce
qed


lemma ex_started_facts:
  "reachable ex_started" "length (questions ex_started) = 5" "current_index ex_started = 0"
  "current_section (test_state ex_started) = Some RW"
  "user_answers (test_state ex_started) = (\<lambda>sec. [])" "stacked ex_started = test_widget"
proof -
  let ?fresh = "load_questions ex_config RW False [3, 2, 4, 2, 5]"
  have v: "filter is_valid ex_bank = ex_valid"
    by (simp add: ex_bank_def ex_valid_def is_valid_def ex_question_def ex_malformed_def)
  have l5: "length ex_valid = 5" by (simp add: ex_valid_def)
  have k: "min (length ex_valid) (nat (total_questions ex_config RW)) = 5"
    by (simp add: l5 ex_config_def)
  have bk: "question_banks ex_config RW = BankData (Some ex_bank)"
    and nn: "0 \<le> total_questions ex_config RW"
    by (simp_all add: ex_config_def)
  have vne: "filter is_valid ex_bank \<noteq> []" using v l5 by auto
  have f: "?fresh = sample_pool ex_valid 5 [3, 2, 4, 2, 5]"
    using load_questions_sampled [OF bk vne nn, of "[3, 2, 4, 2, 5]"] by (simp only: v k)
  have "5 \<le> length ex_valid" by (simp add: l5)
  from sample_pool_props [OF this, of "[3, 2, 4, 2, 5]"]
  have len: "length ?fresh = 5" unfolding f by blast
  then have ne: "?fresh \<noteq> []" by auto
  have "init ex_config [] 0 False default_analytics NoFile = Inr ex_menu"
    by (simp add: init_def load_progress_def initial_app_def ex_menu_def fresh_test_state_def)
  then have rm: "reachable ex_menu" by (rule reachable.r_init)
  from start_full_test_fresh [OF ne, of 0 ex_menu]
  obtain t where t: "start_full_test ex_config [3, 2, 4, 2, 5] 0 ex_menu = Inr t"
    and tq: "questions t = ?fresh" and tc: "current_index t = 0"
    and ts: "current_section (test_state t) = Some RW"
    and tu: "user_answers (test_state t) = (\<lambda>sec. [])" and tw: "stacked t = test_widget"
    by blast
  have e0: "ex_started = t" by (simp add: ex_started_def t)
  show "reachable ex_started" unfolding e0 using rm t by (rule reachable.r_start_full_test)
  show "length (questions ex_started) = 5" using tq len by (simp add: e0)
  show "current_index ex_started = 0" using tc by (simp add: e0)
  show "current_section (test_state ex_started) = Some RW" using ts by (simp add: e0)
  show "user_answers (test_state ex_started) = (\<lambda>sec. [])" using tu by (simp add: e0)
  show "stacked ex_started = test_widget" using tw by (simp add: e0)
qed

text \<open>
  Claim C10. With a checked radio button (ids 0 to 3, as \<^verbatim>\<open>test_screen\<close> creates them)
  \<^verbatim>\<open>save_answer\<close> stores, under the key of the current index in the dict of the
  current section, the one letter \<^verbatim>\<open>chr(ord('A') + id)\<close>, which is A, B, C or D; every
  other key and the other section's dict are unchanged. In a state that the program
  reaches, a resumed session included, the test widget is shown only with an active
  question set, and with an active question set that key is an index into the set. No
  other slot of the engine writes an answer: each leaves the answer dicts as they are or
  empties them. Hence in every state that the program reaches every value of the answer
  dicts is one of A, B, C, D.
\<close>

theorem C10_answers_are_choice_letters:
  assumes "b \<in> set choices_buttons" and "current_section (test_state s) = Some sec"
  shows "\<exists>s' letter. save_answer (Some b) s = Inr s'
         \<and> letter = [''A'', ''B'', ''C'', ''D''] ! b
         \<and> letter \<in> {''A'', ''B'', ''C'', ''D''}
         \<and> user_answers (test_state s') sec
             = AList.update (IntKey (current_index s)) letter (user_answers (test_state s) sec)
         \<and> map_of (user_answers (test_state s') sec) (IntKey (current_index s)) = Some letter
         \<and> (\<forall>k. k \<noteq> IntKey (current_index s) \<longrightarrow>
               map_of (user_answers (test_state s') sec) k
                 = map_of (user_answers (test_state s) sec) k)
         \<and> (\<forall>sec'. sec' \<noteq> sec \<longrightarrow>
               user_answers (test_state s') sec' = user_answers (test_state s) sec')
         \<and> (reachable s \<and> stacked s = test_widget \<longrightarrow> questions s \<noteq> [])
         \<and> (reachable s \<and> questions s \<noteq> [] \<longrightarrow>
               0 \<le> current_index s \<and> current_index s < int (length (questions s)))
         \<and> (reachable s \<longrightarrow> reachable s')
         \<and> (\<forall>t sec' k v. reachable t
                 \<and> map_of (user_answers (test_state t) sec') k = Some v
               \<longrightarrow> v \<in> {''A'', ''B'', ''C'', ''D''})
         \<and> save_answer None s = Inr s
         \<and> (\<forall>t. prev_question s = Inr t \<longrightarrow> answers_kept_or_cleared s t)
         \<and> (\<forall>t. next_question s = Inr t \<longrightarrow> answers_kept_or_cleared s t)
         \<and> answers_kept_or_cleared s (submit_section cfg today reply s)
         \<and> answers_kept_or_cleared s (update_timer cfg today reply s)
         \<and> (\<forall>t. start_next_section cfg rs now s = Inr t \<longrightarrow> answers_kept_or_cleared s t)
         \<and> (\<forall>t. start_full_test cfg rs now s = Inr t \<longrightarrow> answers_kept_or_cleared s t)
         \<and> answers_kept_or_cleared s (back_to_menu s)"
proof -
  let ?letter = "[''A'', ''B'', ''C'', ''D''] ! b"
  let ?ts = "test_state s"
  let ?s' = "save_progress False
               (s\<lparr>test_state := ?ts\<lparr>user_answers :=
                    (user_answers ?ts)(sec := AList.update (IntKey (current_index s)) ?letter
                                               (user_answers ?ts sec))\<rparr>\<rparr>)"
  have sv: "save_answer (Some b) s = Inr ?s'"
    using assms(2)
    by (simp add: save_answer_def Let_def answer_letter [OF assms(1)] del: of_char_Char)
  have upd: "user_answers (test_state ?s') sec
               = AList.update (IntKey (current_index s)) ?letter (user_answers ?ts sec)"
    and other: "\<forall>sec'. sec' \<noteq> sec \<longrightarrow> user_answers (test_state ?s') sec' = user_answers ?ts sec'"
    by (simp_all add: save_progress_def)
  have look: "map_of (user_answers (test_state ?s') sec) (IntKey (current_index s)) = Some ?letter"
    and rest: "\<forall>k. k \<noteq> IntKey (current_index s) \<longrightarrow>
               map_of (user_answers (test_state ?s') sec) k = map_of (user_answers ?ts sec) k"
    unfolding upd by (simp_all add: update_conv')
  have widget: "reachable s \<and> stacked s = test_widget \<longrightarrow> questions s \<noteq> []"
    using reachable_sound [of s] assms(2) by (auto simp: sound_def widget_ok_def)
  have bounds: "reachable s \<and> questions s \<noteq> [] \<longrightarrow>
               0 \<le> current_index s \<and> current_index s < int (length (questions s))"
    using reachable_sound [of s] sound_bounds [of s] by blast
  have "b \<in> set choices_buttons \<Longrightarrow> Some b \<in> insert None (Some ` set choices_buttons)"
    by simp
  then have reach: "reachable s \<longrightarrow> reachable ?s'"
    using reachable.r_save_answer [OF _ _ sv] assms(1) by blast
  have vals: "\<forall>t sec' k v. reachable t
                 \<and> map_of (user_answers (test_state t) sec') k = Some v
               \<longrightarrow> v \<in> {''A'', ''B'', ''C'', ''D''}"
    using reachable_letters answers_ok_values by blast
  have none: "save_answer None s = Inr s" by (simp add: save_answer_def)
  have frame: "(\<forall>t. prev_question s = Inr t \<longrightarrow> answers_kept_or_cleared s t)
         \<and> (\<forall>t. next_question s = Inr t \<longrightarrow> answers_kept_or_cleared s t)
         \<and> answers_kept_or_cleared s (submit_section cfg today reply s)
         \<and> answers_kept_or_cleared s (update_timer cfg today reply s)
         \<and> (\<forall>t. start_next_section cfg rs now s = Inr t \<longrightarrow> answers_kept_or_cleared s t)
         \<and> (\<forall>t. start_full_test cfg rs now s = Inr t \<longrightarrow> answers_kept_or_cleared s t)
         \<and> answers_kept_or_cleared s (back_to_menu s)"
    using kept_prev_question [of s] kept_next_question [of s]
      kept_start_next_section [of cfg rs now s] cleared_start_full_test [of cfg rs now s]
      kept_same [OF answers_submit_section, of s cfg today reply]
      kept_same [OF answers_update_timer, of s cfg today reply]
      answers_back_to_menu [of s]
    by (auto simp: answers_kept_or_cleared_def)
  show ?thesis
    using sv letter_in_codes [OF assms(1)] upd look rest other widget bounds reach vals none
      frame
    by blast
qed

theorem C10_answers_witness:
  "(2::nat) \<in> set choices_buttons
   \<and> current_section (test_state ex_started) = Some RW
   \<and> reachable ex_started \<and> stacked ex_started = test_widget
   \<and> length (questions ex_started) = 5
   \<and> current_index ex_started = 0
   \<and> user_answers (test_state ex_started) RW = []
   \<and> (\<exists>s'. save_answer (Some 2) ex_started = Inr s'
          \<and> user_answers (test_state s') RW = [(IntKey 0, ''C'')]
          \<and> user_answers (test_state s') MATH = []
          \<and> reachable s')"
proof -
  have b: "(2::nat) \<in> set choices_buttons" by (simp add: choices_buttons_def)
  note f = ex_started_facts
  from C10_answers_are_choice_letters [OF b f(4)]
  obtain s' where "save_answer (Some 2) ex_started = Inr s'"
    and "user_answers (test_state s') RW
           = AList.update (IntKey (current_index ex_started)) ([''A'', ''B'', ''C'', ''D''] ! 2)
               (user_answers (test_state ex_started) RW)"
    and "\<forall>sec'. sec' \<noteq> RW \<longrightarrow>
           user_answers (test_state s') sec' = user_answers (test_state ex_started) sec'"
    and "reachable ex_started \<longrightarrow> reachable s'"
    by blast
  then have "save_answer (Some 2) ex_started = Inr s'
      \<and> user_answers (test_state s') RW = [(IntKey 0, ''C'')]
      \<and> user_answers (test_state s') MATH = []
      \<and> reachable s'"
    using f(1) by (simp add: f(3) f(5))
  moreover have "user_answers (test_state ex_started) RW = []" by (simp add: f(5))
  ultimately show ?thesis using b f by blast
qed

section \<open>Resume with a missing question set\<close>

lemma show_question_valid:
  assumes "0 \<le> current_index s" and "list_all is_valid (questions s)"
    and "current_section (test_state s) \<noteq> None"
  shows "show_question s =
           (if questions s = [] \<or> int (length (questions s)) \<le> current_index s
            then Inr (back_to_menu s) else Inr s)"
proof (cases "questions s = [] \<or> int (length (questions s)) \<le> current_index s")
  case True
  then show ?thesis by (auto simp: show_question_def Let_def)
next
  case False
  have l: "current_index s < int (length (questions s))" using False by simp
  then have "nat (current_index s) < length (questions s)" using assms(1) by simp
  then have "is_valid (questions s ! nat (current_index s))"
    using assms(2) by (simp add: list_all_length)
  then have q: "q_question (questions s ! nat (current_index s)) \<noteq> None"
    "q_options (questions s ! nat (current_index s)) \<noteq> None"
    by (simp_all add: is_valid_def)
  show ?thesis
    using False assms(1,3) l q by (auto simp: show_question_def Let_def)
qed

lemma enter_test_widget_valid:
  assumes "0 \<le> current_index s" and "list_all is_valid (questions s)"
    and "current_section (test_state s) \<noteq> None"
  shows "enter_test_widget s =
           Inr (save_progress False
                  ((if questions s = [] \<or> int (length (questions s)) \<le> current_index s
                    then back_to_menu (s\<lparr>timer_active := True\<rparr>)
                    else s\<lparr>timer_active := True\<rparr>)\<lparr>stacked := test_widget\<rparr>))"
proof -
  let ?u = "s\<lparr>timer_active := True\<rparr>"
  have "0 \<le> current_index ?u" "list_all is_valid (questions ?u)"
    "current_section (test_state ?u) \<noteq> None"
    using assms by (auto simp: current_index_def split: if_splits)
  from show_question_valid [OF this]
  show ?thesis by (simp add: enter_test_widget_def current_index_def)
qed

text \<open>The state in which \<^verbatim>\<open>__init__\<close> calls \<^verbatim>\<open>start_test_section\<close> after the user chose to
  resume on a progress file with a test state and without questions, and what
  \<^verbatim>\<open>start_test_section\<close> does with it.\<close>

lemma init_without_questions:
  assumes "snap_test_state snap = Some ts"
    and "current_section ts = Some sec"
    and "test_phase ts = Some (Running sec)"
    and "snap_questions snap = None \<or> snap_questions snap = Some []"
  shows "init cfg rs now True an (SavedFile snap) =
           (if load_questions cfg sec False rs = []
            then Inr \<lparr>test_state = (load_state ts)\<lparr>test_phase := Some MENU\<rparr>, questions = [],
                      remaining_seconds =
                        (case snap_remaining_seconds snap of None \<Rightarrow> 0 | Some r \<Rightarrow> r),
                      timer_active = False, stacked = menu_widget, analytics = an,
                      progress_file = SavedFile snap\<rparr>
            else enter_test_widget
                   \<lparr>test_state = load_state ts, questions = load_questions cfg sec False rs,
                    remaining_seconds = default_time_limits cfg sec * 60,
                    timer_active = False, stacked = menu_widget, analytics = an,
                    progress_file = SavedFile snap\<rparr>)"
proof -
  have q: "(case snap_questions snap of None \<Rightarrow> [] | Some qs \<Rightarrow> qs) = []"
    using assms(4) by auto
  have ls: "current_section (load_state ts) = Some sec"
    "test_phase (load_state ts) = Some (Running sec)"
    using assms(2,3) by (simp_all add: load_state_def)
  have same: "(load_state ts)\<lparr>current_section := Some sec, test_phase := Some (Running sec)\<rparr>
                = load_state ts"
    using ls by simp
  show ?thesis
    using assms(1) q ls
    by (simp add: init_def load_progress_def initial_app_def start_test_section_def Let_def same)
qed




lemma ex_fresh_math: "length (load_questions ex_config MATH False [3, 2, 4, 2, 5]) = 5"
proof -
  have v: "filter is_valid ex_bank = ex_valid"
    by (simp add: ex_bank_def ex_valid_def is_valid_def ex_question_def ex_malformed_def)
  have l5: "length ex_valid = 5" by (simp add: ex_valid_def)
  have k: "min (length ex_valid) (nat (total_questions ex_config MATH)) = 5"
    by (simp add: l5 ex_config_def)
  have bk: "question_banks ex_config MATH = BankData (Some ex_bank)"
    and nn: "0 \<le> total_questions ex_config MATH"
    by (simp_all add: ex_config_def)
  have vne: "filter is_valid ex_bank \<noteq> []" using v l5 by auto
  have f: "load_questions ex_config MATH False [3, 2, 4, 2, 5]
             = sample_pool ex_valid 5 [3, 2, 4, 2, 5]"
    using load_questions_sampled [OF bk vne nn, of "[3, 2, 4, 2, 5]"] by (simp only: v k)
  have "5 \<le> length ex_valid" by (simp add: l5)
  from sample_pool_props [OF this, of "[3, 2, 4, 2, 5]"]
  show ?thesis unfolding f by blast
qed

lemma ex_snapshot_fields:
  "snap_test_state (ex_snapshot idx qs)
     = Some (dump_state (test_state (ex_session MATH idx 123 [(IntKey 0, ''B'')])))"
  "snap_questions (ex_snapshot idx qs) = qs"
  "snap_remaining_seconds (ex_snapshot idx qs) = Some 123"
  by (simp_all add: ex_snapshot_def)

lemma ex_saved_state_fields:
  "current_section (dump_state (test_state (ex_session MATH idx 123 [(IntKey 0, ''B'')])))
     = Some MATH"
  "test_phase (dump_state (test_state (ex_session MATH idx 123 [(IntKey 0, ''B'')])))
     = Some (Running MATH)"
  "math_index (dump_state (test_state (ex_session MATH idx 123 [(IntKey 0, ''B'')]))) = idx"
  by (simp_all add: dump_state_def ex_session_def)

text \<open>With a saved index below \<open>- len\<close> of the fresh questions the subscript in
  \<^verbatim>\<open>show_question\<close> raises inside \<^verbatim>\<open>__init__\<close>.\<close>

lemma resume_negative_index_raises:
  "init ex_config [3, 2, 4, 2, 5] 0 True default_analytics
     (SavedFile (ex_snapshot (- 100) (Some []))) = Inl IndexError"
proof -
  let ?ts = "dump_state (test_state (ex_session MATH (- 100) 123 [(IntKey 0, ''B'')]))"
  let ?fresh = "load_questions ex_config MATH False [3, 2, 4, 2, 5]"
  let ?u = "\<lparr>test_state = load_state ?ts, questions = ?fresh,
              remaining_seconds = default_time_limits ex_config MATH * 60,
              timer_active = False, stacked = menu_widget, analytics = default_analytics,
              progress_file = SavedFile (ex_snapshot (- 100) (Some []))\<rparr>"
  let ?v = "\<lparr>test_state = load_state ?ts, questions = ?fresh,
              remaining_seconds = default_time_limits ex_config MATH * 60,
              timer_active = True, stacked = menu_widget, analytics = default_analytics,
              progress_file = SavedFile (ex_snapshot (- 100) (Some []))\<rparr>"
  note f = ex_snapshot_fields [of "- 100" "Some []"] and h = ex_saved_state_fields [of "- 100"]
  have q: "snap_questions (ex_snapshot (- 100) (Some [])) = None
           \<or> snap_questions (ex_snapshot (- 100) (Some [])) = Some []"
    by (simp add: f(2))
  have ne: "?fresh \<noteq> []" using ex_fresh_math by auto
  have i: "init ex_config [3, 2, 4, 2, 5] 0 True default_analytics
             (SavedFile (ex_snapshot (- 100) (Some []))) = enter_test_widget ?u"
    using init_without_questions [OF f(1) h(1) h(2) q, of ex_config "[3, 2, 4, 2, 5]" 0
            default_analytics] ne
    by simp
  have ci: "current_index ?v = - 100"
    using h(1) h(3) by (simp add: current_index_def load_state_def)
  have "show_question ?v = Inl IndexError"
    unfolding show_question_def Let_def ci using ne by (simp add: ex_fresh_math)
  then show ?thesis unfolding i by (simp add: enter_test_widget_def)
qed




section \<open>The continue button\<close>

text \<open>With a MATH bank that gives a non-empty sample, \<^verbatim>\<open>start_next_section\<close> returns and
  the session is in the MATH section on the fresh sample, with the MATH time limit and
  index 0.\<close>

lemma start_next_section_enters_math:
  assumes "load_questions cfg MATH False rs \<noteq> []"
  shows "\<exists>t. start_next_section cfg rs now s = Inr t
           \<and> test_phase (test_state t) = Some (Running MATH)
           \<and> current_section (test_state t) = Some MATH
           \<and> questions t = load_questions cfg MATH False rs
           \<and> remaining_seconds t = default_time_limits cfg MATH * 60
           \<and> math_index (test_state t) = 0
           \<and> rw_index (test_state t) = rw_index (test_state s)
           \<and> timer_active t \<and> stacked t = test_widget"
  using assms
  by (simp add: start_next_section_def start_test_section_def Let_def enter_test_widget_valid
        load_questions_valid current_index_def save_progress_def)

end
